theory Spec2Isabelle
  imports Main
begin

section \<open>JavaScript values\<close>

text \<open>
  The client handles plain data: the caller's parameters, the options object and the
  values \<open>JSON.parse\<close> returns. They are modelled by one datatype. Numbers are
  integers (identifiers, limits, offsets and status codes); functions and symbols are not
  part of the model. An object is the list of its own enumerable properties in the order
  \<open>Object.entries\<close> lists them. \<open>JReadStream\<close> is an instance of Node's
  \<open>fs.ReadStream\<close>, \<open>JReadable\<close> any other readable stream, and
  \<open>JBuffer\<close> a \<open>Buffer\<close> with its bytes.
\<close>

datatype jsvalue =
    JUndefined
  | JNull
  | JBool bool
  | JNum int
  | JStr string
  | JArr "jsvalue list"
  | JObj "(string \<times> jsvalue) list"
  | JReadStream nat
  | JReadable nat
  | JBuffer string

datatype js_error = TypeError string | Error string

type_synonym entries = "(string \<times> jsvalue) list"

definition nullish :: "jsvalue \<Rightarrow> bool" where
  "nullish v = (v = JUndefined \<or> v = JNull)"

fun truthy :: "jsvalue \<Rightarrow> bool" where
  "truthy JUndefined = False"
| "truthy JNull = False"
| "truthy (JBool b) = b"
| "truthy (JNum n) = (n \<noteq> 0)"
| "truthy (JStr s) = (s \<noteq> [])"
| "truthy _ = True"

fun typeof :: "jsvalue \<Rightarrow> string" where
  "typeof JUndefined = ''undefined''"
| "typeof (JBool b) = ''boolean''"
| "typeof (JNum n) = ''number''"
| "typeof (JStr s) = ''string''"
| "typeof _ = ''object''"

fun string_of :: "jsvalue \<Rightarrow> string" where
  "string_of (JStr s) = s"
| "string_of _ = []"

fun Array_isArray :: "jsvalue \<Rightarrow> bool" where
  "Array_isArray (JArr xs) = True"
| "Array_isArray _ = False"

fun instanceof_ReadStream :: "jsvalue \<Rightarrow> bool" where
  "instanceof_ReadStream (JReadStream n) = True"
| "instanceof_ReadStream _ = False"

text \<open>\<open>String(n)\<close> for a non-negative integer such as an array index: its decimal digits.\<close>

definition digit_char :: "nat \<Rightarrow> char" where
  "digit_char d = ''0123456789'' ! d"

fun String_nat :: "nat \<Rightarrow> string" where
  "String_nat n =
     (if n < 10 then [digit_char n] else String_nat (n div 10) @ [digit_char (n mod 10)])"

declare String_nat.simps [simp del]

definition String_int :: "int \<Rightarrow> string" where
  "String_int i = (if i < 0 then ''-'' @ String_nat (nat (- i)) else String_nat (nat i))"

fun join_comma :: "string list \<Rightarrow> string" where
  "join_comma [] = []"
| "join_comma [s] = s"
| "join_comma (s # t # ts) = s @ '','' @ join_comma (t # ts)"

text \<open>
  The conversion of a value to a string, as a template literal, string concatenation,
  \<open>Array.prototype.join\<close> and \<open>URLSearchParams\<close> apply it. \<open>None\<close> is the
  \<open>TypeError\<close> "Cannot convert object to primitive value": an object whose own property
  \<open>toString\<close> is data (not callable) has no usable \<open>toString\<close>, and the inherited
  \<open>valueOf\<close> returns the object itself. An array is joined with commas, where
  \<open>undefined\<close> and \<open>null\<close> elements give the empty string.
\<close>

fun ToString :: "jsvalue \<Rightarrow> string option" where
  "ToString JUndefined = Some ''undefined''"
| "ToString JNull = Some ''null''"
| "ToString (JBool b) = Some (if b then ''true'' else ''false'')"
| "ToString (JNum n) = Some (String_int n)"
| "ToString (JStr s) = Some s"
| "ToString (JArr xs) =
     map_option join_comma
       (those (map (\<lambda>x. if x = JUndefined \<or> x = JNull then Some [] else ToString x) xs))"
| "ToString (JObj kvs) =
     (if ''toString'' \<in> fst ` set kvs then None else Some ''[object Object]'')"
| "ToString (JReadStream n) = Some ''[object Object]''"
| "ToString (JReadable n) = Some ''[object Object]''"
| "ToString (JBuffer s) = Some s"

definition cannot_convert :: js_error where
  "cannot_convert = TypeError ''Cannot convert object to primitive value''"

subsection \<open>Objects\<close>

text \<open>
  Reading a data property: \<open>undefined\<close> when the object has no such own property.
  The client reads only the keys \<open>meta\<close>, \<open>msg\<close>, \<open>error\<close>, \<open>response\<close>,
  \<open>media\<close>, \<open>tags\<close>, \<open>content\<close>, \<open>baseUrl\<close> and the four credential fields,
  none of which is inherited from a prototype, so a primitive, an array, a stream and a
  buffer give \<open>undefined\<close>.
\<close>

definition obj_get :: "entries \<Rightarrow> string \<Rightarrow> jsvalue" where
  "obj_get es k = (case map_of es k of Some v \<Rightarrow> v | None \<Rightarrow> JUndefined)"

fun get_prop :: "jsvalue \<Rightarrow> string \<Rightarrow> jsvalue" where
  "get_prop (JObj es) k = obj_get es k"
| "get_prop _ k = JUndefined"

definition hasOwnProperty :: "entries \<Rightarrow> string \<Rightarrow> bool" where
  "hasOwnProperty es k = (k \<in> fst ` set es)"

text \<open>Optional chaining \<open>v?.k\<close> and the nullish coalescing \<open>a ?? b\<close>.\<close>

definition opt_chain :: "jsvalue \<Rightarrow> string \<Rightarrow> jsvalue" where
  "opt_chain v k = (if nullish v then JUndefined else get_prop v k)"

definition coalesce :: "jsvalue \<Rightarrow> jsvalue \<Rightarrow> jsvalue" where
  "coalesce a b = (if nullish a then b else a)"

text \<open>
  An ordinary object lists its array-index keys first, in ascending order, then its other
  string keys in the order they were created. A key is an array index when it is the
  decimal text of an integer up to \<open>2^32 - 2\<close>.
\<close>

definition digits_value :: "string \<Rightarrow> nat" where
  "digits_value s = foldl (\<lambda>a c. 10 * a + (of_char c - 48)) 0 s"

definition array_index :: "string \<Rightarrow> nat option" where
  "array_index s =
     (let n = digits_value s in if String_nat n = s \<and> n \<le> 4294967294 then Some n else None)"

fun insert_index :: "nat \<Rightarrow> string \<Rightarrow> jsvalue \<Rightarrow> entries \<Rightarrow> entries" where
  "insert_index n k v [] = [(k, v)]"
| "insert_index n k v ((k', v') # es) =
     (case array_index k' of
        Some m \<Rightarrow> if m < n then (k', v') # insert_index n k v es else (k, v) # (k', v') # es
      | None \<Rightarrow> (k, v) # (k', v') # es)"

text \<open>Creating or overwriting the data property \<open>k\<close> of an ordinary object.\<close>

definition obj_define :: "entries \<Rightarrow> string \<Rightarrow> jsvalue \<Rightarrow> entries" where
  "obj_define es k v =
     (if k \<in> fst ` set es then map (\<lambda>(k', v'). if k' = k then (k', v) else (k', v')) es
      else (case array_index k of Some n \<Rightarrow> insert_index n k v es | None \<Rightarrow> es @ [(k, v)]))"

text \<open>The spread \<open>{...target, ...src}\<close>, and \<open>Object.fromEntries\<close>.\<close>

definition obj_spread :: "entries \<Rightarrow> entries \<Rightarrow> entries" where
  "obj_spread target src = foldl (\<lambda>obj (k, v). obj_define obj k v) target src"

definition Object_fromEntries :: "entries \<Rightarrow> entries" where
  "Object_fromEntries es = obj_spread [] es"

subsection \<open>Map and URLSearchParams\<close>

text \<open>A \<open>Map\<close> with string keys keeps its entries in insertion order.\<close>

definition Map_has :: "entries \<Rightarrow> string \<Rightarrow> bool" where
  "Map_has m k = (k \<in> fst ` set m)"

definition Map_set :: "entries \<Rightarrow> string \<Rightarrow> jsvalue \<Rightarrow> entries" where
  "Map_set m k v =
     (if Map_has m k then map (\<lambda>(k', v'). if k' = k then (k', v) else (k', v')) m
      else m @ [(k, v)])"

definition Map_new :: "entries \<Rightarrow> entries" where
  "Map_new es = foldl (\<lambda>m (k, v). Map_set m k v) [] es"

type_synonym search_params = "(string \<times> string) list"

text \<open>
  \<open>URLSearchParams.append\<close> adds a pair at the end; \<open>URLSearchParams.set\<close> gives the
  first pair of that name the new value and removes the other pairs of that name, or
  appends when there is none.
\<close>

definition searchParams_append :: "search_params \<Rightarrow> string \<Rightarrow> string \<Rightarrow> search_params" where
  "searchParams_append ps k v = ps @ [(k, v)]"

fun searchParams_set :: "search_params \<Rightarrow> string \<Rightarrow> string \<Rightarrow> search_params" where
  "searchParams_set [] k v = [(k, v)]"
| "searchParams_set ((k', v') # ps) k v =
     (if k' = k then (k, v) # filter (\<lambda>p. fst p \<noteq> k) ps
      else (k', v') # searchParams_set ps k v)"

text \<open>
  A parsed URL. \<open>url.protocol\<close> is the scheme followed by a colon (URL Standard, the
  protocol getter), \<open>url.hash\<close> is empty or starts with \<open>#\<close>.
\<close>

record url =
  scheme :: string
  username :: string
  password :: string
  host :: string
  pathname :: string
  searchParams :: search_params
  hash :: string

definition protocol :: "url \<Rightarrow> string" where
  "protocol u = scheme u @ '':''"

section \<open>The client constructor\<close>

text \<open>
  \<open>Client.constructor\<close> (tumblr.js, lines 42 to 160). The platform's URL parser is a
  parameter: \<open>new_URL input base\<close> is \<open>new URL(input, base)\<close>, \<open>None\<close> when it
  throws, and \<open>URL_toString\<close> is \<open>url.toString()\<close>. The options object is absent
  (\<open>None\<close>) or the list of its own properties.
\<close>

datatype credentials =
    NoneAuth
  | ApiKeyAuth string
  | OAuth1Auth string string string string

record client =
  baseUrl :: string
  credentials :: credentials
  oauthClient :: "(string \<times> string) option"

definition API_BASE_URL :: string where
  "API_BASE_URL = ''https://api.tumblr.com''"

text \<open>The \<open>try\<close> block and its \<open>catch\<close>: lines 51 to 101.\<close>

definition Client_baseUrl ::
  "(string \<Rightarrow> string option \<Rightarrow> url option) \<Rightarrow> (url \<Rightarrow> string) \<Rightarrow> entries option
     \<Rightarrow> js_error + string" where
  "Client_baseUrl new_URL URL_toString options =
     (let given = (case options of None \<Rightarrow> JUndefined | Some opts \<Rightarrow> obj_get opts ''baseUrl'');
          input = coalesce given (JStr API_BASE_URL)
      in case ToString input of
           None \<Rightarrow> Inl (TypeError ''Invalid baseUrl option provided.'')
         | Some s \<Rightarrow>
             (case new_URL s None of
                None \<Rightarrow> Inl (TypeError ''Invalid baseUrl option provided.'')
              | Some u \<Rightarrow>
                  if pathname u \<noteq> ''/''
                  then Inl (TypeError ''baseUrl option must not include a pathname.'')
                  else if map fst (searchParams u) \<noteq> []
                  then Inl (TypeError ''baseUrl option must not include search params (query).'')
                  else if username u \<noteq> []
                  then Inl (TypeError ''baseUrl option must not include username.'')
                  else if password u \<noteq> []
                  then Inl (TypeError ''baseUrl option must not include password.'')
                  else if hash u \<noteq> []
                  then Inl (TypeError ''baseUrl option must not include hash.'')
                  else Inr (URL_toString u)))"

text \<open>The credentials: lines 103 to 145.\<close>

definition Client_credentials :: "entries option \<Rightarrow> js_error + credentials" where
  "Client_credentials options =
     (case options of
        None \<Rightarrow> Inr NoneAuth
      | Some opts \<Rightarrow>
          if list_ex (hasOwnProperty opts) [''consumer_secret'', ''token_secret'', ''token'']
          then
            if \<not> truthy (obj_get opts ''consumer_key'')
               \<or> typeof (obj_get opts ''consumer_key'') \<noteq> ''string''
            then Inl (TypeError
              ''Provide consumer_key or all oauth credentials. Invalid consumer_key provided.'')
            else if \<not> truthy (obj_get opts ''consumer_secret'')
               \<or> typeof (obj_get opts ''consumer_secret'') \<noteq> ''string''
            then Inl (TypeError
              ''Provide consumer_key or all oauth credentials. Invalid consumer_secret provided.'')
            else if \<not> truthy (obj_get opts ''token'')
               \<or> typeof (obj_get opts ''token'') \<noteq> ''string''
            then Inl (TypeError
              ''Provide consumer_key or all oauth credentials. Invalid token provided.'')
            else if \<not> truthy (obj_get opts ''token_secret'')
               \<or> typeof (obj_get opts ''token_secret'') \<noteq> ''string''
            then Inl (TypeError
              ''Provide consumer_key or all oauth credentials. Invalid token_secret provided.'')
            else Inr (OAuth1Auth
              (string_of (obj_get opts ''consumer_key''))
              (string_of (obj_get opts ''consumer_secret''))
              (string_of (obj_get opts ''token''))
              (string_of (obj_get opts ''token_secret'')))
          else if truthy (obj_get opts ''consumer_key'')
          then
            if typeof (obj_get opts ''consumer_key'') \<noteq> ''string''
            then Inl (TypeError ''You must provide a consumer_key.'')
            else Inr (ApiKeyAuth (string_of (obj_get opts ''consumer_key'')))
          else Inr NoneAuth)"

definition Client_constructor ::
  "(string \<Rightarrow> string option \<Rightarrow> url option) \<Rightarrow> (url \<Rightarrow> string) \<Rightarrow> entries option
     \<Rightarrow> js_error + client" where
  "Client_constructor new_URL URL_toString options =
     (case Client_baseUrl new_URL URL_toString options of
        Inl e \<Rightarrow> Inl e
      | Inr b \<Rightarrow>
          (case Client_credentials options of
             Inl e \<Rightarrow> Inl e
           | Inr c \<Rightarrow>
               Inr \<lparr> baseUrl = b, credentials = c,
                     oauthClient = (case c of OAuth1Auth ck cs t ts \<Rightarrow> Some (ck, cs) | _ \<Rightarrow> None) \<rparr>))"

section \<open>The request planner\<close>

text \<open>
  \<open>#prepareRequestUrlAndRequestData\<close> (lines 336 to 368). The parameters are absent or
  the entries of the parameter object, as \<open>Object.entries\<close> lists them.
\<close>

datatype http_method = GET | POST | PUT

definition index_key :: "string \<Rightarrow> nat \<Rightarrow> string" where
  "index_key key index = key @ ''['' @ String_nat index @ '']''"

text \<open>The inner loop over \<open>value.entries()\<close>, lines 346 to 348.\<close>

fun append_array :: "string \<Rightarrow> nat \<Rightarrow> jsvalue list \<Rightarrow> search_params \<Rightarrow> js_error + search_params" where
  "append_array key index [] ps = Inr ps"
| "append_array key index (arrayValue # rest) ps =
     (case ToString arrayValue of
        None \<Rightarrow> Inl cannot_convert
      | Some s \<Rightarrow> append_array key (Suc index) rest (searchParams_append ps (index_key key index) s))"

text \<open>The loop over \<open>Object.entries(params)\<close>, lines 341 to 352.\<close>

fun params_to_search :: "entries \<Rightarrow> search_params \<Rightarrow> js_error + search_params" where
  "params_to_search [] ps = Inr ps"
| "params_to_search ((key, v) # rest) ps =
     (case v of
        JArr xs \<Rightarrow>
          (case append_array key 0 xs ps of
             Inl e \<Rightarrow> Inl e
           | Inr ps' \<Rightarrow> params_to_search rest ps')
      | _ \<Rightarrow>
          (case ToString v of
             None \<Rightarrow> Inl cannot_convert
           | Some s \<Rightarrow> params_to_search rest (searchParams_set ps key s)))"

text \<open>The loop over \<open>url.searchParams.entries()\<close>, lines 359 to 363.\<close>

fun merge_search :: "search_params \<Rightarrow> entries \<Rightarrow> entries" where
  "merge_search [] requestData = requestData"
| "merge_search ((key, v) # rest) requestData =
     merge_search rest
       (if \<not> Map_has requestData key then Map_set requestData key (JStr v) else requestData)"

definition prepareRequestUrlAndRequestData ::
  "(string \<Rightarrow> string option \<Rightarrow> url option) \<Rightarrow> string \<Rightarrow> string \<Rightarrow> http_method \<Rightarrow> entries option
     \<Rightarrow> js_error + (url \<times> entries option)" where
  "prepareRequestUrlAndRequestData new_URL base apiPath method params =
     (case new_URL apiPath (Some base) of
        None \<Rightarrow> Inl (TypeError ''Invalid URL'')
      | Some u \<Rightarrow>
          if method = GET then
            (case params of
               None \<Rightarrow> Inr (u, None)
             | Some ps \<Rightarrow>
                 (case params_to_search ps (searchParams u) of
                    Inl e \<Rightarrow> Inl e
                  | Inr q \<Rightarrow> Inr (u\<lparr>searchParams := q\<rparr>, None)))
          else
            (let requestData =
                   merge_search (searchParams u)
                     (Map_new (case params of None \<Rightarrow> [] | Some ps \<Rightarrow> ps))
             in Inr (u\<lparr>searchParams := []\<rparr>,
                     if requestData \<noteq> [] then Some requestData else None)))"

section \<open>The NPF content transformer\<close>

text \<open>
  \<open>#transformNpfParams\<close> (lines 448 to 479). The callback of \<open>content.map\<close> for the
  block at \<open>index\<close>, with the \<open>mediaStreams\<close> map it writes to: reading \<open>media\<close>
  of \<open>undefined\<close> or \<open>null\<close> throws. A spread into a fresh object literal
  creates the properties of its source in their order, so \<open>{ ...block }\<close> has the
  entries of \<open>block\<close>, and \<open>media: ...\<close> then overwrites or adds that property.
\<close>

definition transform_block :: "jsvalue \<Rightarrow> nat \<Rightarrow> entries \<Rightarrow> js_error + (jsvalue \<times> entries)" where
  "transform_block block index mediaStreams =
     (if nullish block then Inl (TypeError ''Cannot read properties of undefined (reading media)'')
      else if truthy (get_prop block ''media'') \<and> instanceof_ReadStream (get_prop block ''media'')
      then Inr (JObj (obj_define (case block of JObj es \<Rightarrow> es | _ \<Rightarrow> [])
                        ''media'' (JObj [(''identifier'', JStr (String_nat index))])),
                Map_set mediaStreams (String_nat index) (get_prop block ''media''))
      else Inr (block, mediaStreams))"

fun content_map :: "jsvalue list \<Rightarrow> nat \<Rightarrow> entries \<Rightarrow> js_error + (jsvalue list \<times> entries)" where
  "content_map [] index mediaStreams = Inr ([], mediaStreams)"
| "content_map (block # rest) index mediaStreams =
     (case transform_block block index mediaStreams of
        Inl e \<Rightarrow> Inl e
      | Inr (block', mediaStreams') \<Rightarrow>
          (case content_map rest (Suc index) mediaStreams' of
             Inl e \<Rightarrow> Inl e
           | Inr (blocks', mediaStreams'') \<Rightarrow> Inr (block' # blocks', mediaStreams'')))"

text \<open>
  \<open>JSON_stringify\<close> is the platform's \<open>JSON.stringify\<close>, applied to an object.
  The input is the object that the parameter pattern \<open>{ tags, content, ...params }\<close>
  takes apart: \<open>params\<close> has its other properties, in their order. Spreading
  \<open>false\<close> adds no property.
\<close>

definition transformNpfParams :: "(jsvalue \<Rightarrow> string) \<Rightarrow> entries \<Rightarrow> js_error + jsvalue" where
  "transformNpfParams JSON_stringify input =
     (let tags = obj_get input ''tags'';
          content = obj_get input ''content'';
          params = filter (\<lambda>(k, v). k \<noteq> ''tags'' \<and> k \<noteq> ''content'') input
      in case content of
           JArr blocks \<Rightarrow>
             (case content_map blocks 0 [] of
                Inl e \<Rightarrow> Inl e
              | Inr (transformedContent, mediaStreams) \<Rightarrow>
                  (case (if Array_isArray tags
                         then map_option (\<lambda>s. [(''tags'', JStr s)]) (ToString tags)
                         else Some [])
                   of
                     None \<Rightarrow> Inl cannot_convert
                   | Some transformedTags \<Rightarrow>
                       (let transformedParams =
                              obj_define (obj_spread params transformedTags)
                                ''content'' (JArr transformedContent)
                        in if mediaStreams \<noteq> []
                           then Inr (JObj (obj_spread
                                  [(''json'', JStr (JSON_stringify (JObj transformedParams)))]
                                  (Object_fromEntries mediaStreams)))
                           else Inr (JObj transformedParams))))
         | _ \<Rightarrow> Inl (TypeError ''content.map is not a function''))"

section \<open>Sending a request\<close>

text \<open>
  \<open>#makeRequest\<close> (lines 186 to 322), in the order of the source: the choice of the
  transport module, the \<open>api_key\<close> query parameter, the request body, and the listeners
  of the \<open>end\<close> and \<open>error\<close> events.
\<close>

datatype transport = Http_module | Https_module

definition httpModel :: "url \<Rightarrow> transport" where
  "httpModel u = (if protocol u = ''http'' then Http_module else Https_module)"

definition url_with_api_key :: "credentials \<Rightarrow> url \<Rightarrow> url" where
  "url_with_api_key creds u =
     (case creds of
        ApiKeyAuth apiKey \<Rightarrow> u\<lparr>searchParams := searchParams_set (searchParams u) ''api_key'' apiKey\<rparr>
      | _ \<Rightarrow> u)"

subsection \<open>The request body\<close>

text \<open>
  A form is the list of the parts \<open>form.append\<close> has added: the field name, the value
  as it was given, and the content type when one is declared.
\<close>

record form_part =
  part_name :: string
  part_value :: jsvalue
  part_contentType :: "string option"

text \<open>
  \<open>form.append\<close> of the package form-data refuses an array value: it reports the
  error "Arrays are not supported." on the form, and since the form has no listener for
  \<open>error\<close> the error is thrown at the call. What the package throws for another
  value it cannot take (a value that is neither text, a buffer nor a stream, by the
  installed version) is the parameter \<open>refused\<close>: the exception, or \<open>None\<close>
  when the part is added.
\<close>

definition form_append ::
  "(jsvalue \<Rightarrow> js_error option) \<Rightarrow> form_part list \<Rightarrow> string \<Rightarrow> jsvalue \<Rightarrow> string option
     \<Rightarrow> js_error + form_part list" where
  "form_append refused form k v ct =
     (if Array_isArray v then Inl (Error ''Arrays are not supported.'')
      else (case refused v of
              Some e \<Rightarrow> Inl e
            | None \<Rightarrow> Inr (form @ [\<lparr> part_name = k, part_value = v, part_contentType = ct \<rparr>])))"

text \<open>The loop over the elements of an array value, lines 248 to 250.\<close>

fun append_array_parts ::
  "(jsvalue \<Rightarrow> js_error option) \<Rightarrow> string \<Rightarrow> nat \<Rightarrow> jsvalue list \<Rightarrow> form_part list
     \<Rightarrow> js_error + form_part list" where
  "append_array_parts refused key index [] form = Inr form"
| "append_array_parts refused key index (arrValue # rest) form =
     (case form_append refused form (index_key key index) arrValue None of
        Inl e \<Rightarrow> Inl e
      | Inr form' \<Rightarrow> append_array_parts refused key (Suc index) rest form')"

text \<open>
  The body of the loop over \<open>data.entries()\<close>, lines 236 to 262.
  \<open>JSON.stringify\<close> of a boolean is the text \<open>true\<close> or \<open>false\<close>.
\<close>

definition form_entry ::
  "(jsvalue \<Rightarrow> js_error option) \<Rightarrow> form_part list \<Rightarrow> string \<times> jsvalue
     \<Rightarrow> js_error + form_part list" where
  "form_entry refused form kv =
     (case kv of (key, v) \<Rightarrow>
        if key = ''json'' \<and> typeof v = ''string''
        then form_append refused form key v (Some ''application/json'')
        else (case v of
                JArr xs \<Rightarrow> append_array_parts refused key 0 xs form
              | JBool b \<Rightarrow>
                  form_append refused form key (JStr (if b then ''true'' else ''false'')) None
              | _ \<Rightarrow> form_append refused form key v None))"

text \<open>The loop over \<open>data.entries()\<close>: an exception of \<open>form.append\<close> ends it.\<close>

fun form_entries ::
  "(jsvalue \<Rightarrow> js_error option) \<Rightarrow> entries \<Rightarrow> form_part list \<Rightarrow> js_error + form_part list" where
  "form_entries refused [] form = Inr form"
| "form_entries refused (kv # rest) form =
     (case form_entry refused form kv of
        Inl e \<Rightarrow> Inl e
      | Inr form' \<Rightarrow> form_entries refused rest form')"

datatype request_body = NoBody | MultipartBody "form_part list" | JsonBody string

text \<open>
  Lines 230 to 276: the body of the request, or the exception that leaves
  \<open>#makeRequest\<close> while the form is built.
\<close>

definition make_body ::
  "(jsvalue \<Rightarrow> js_error option) \<Rightarrow> (jsvalue \<Rightarrow> string) \<Rightarrow> entries option
     \<Rightarrow> js_error + request_body" where
  "make_body refused JSON_stringify data =
     (case data of
        None \<Rightarrow> Inr NoBody
      | Some d \<Rightarrow>
          if Map_has d ''data'' \<or> Map_has d ''data64'' \<or> Map_has d ''json''
          then (case form_entries refused d [] of
                  Inl e \<Rightarrow> Inl e
                | Inr form \<Rightarrow> Inr (MultipartBody form))
          else Inr (JsonBody (JSON_stringify (JObj (Object_fromEntries d)))))"

subsection \<open>The response\<close>

text \<open>
  The outcome the \<open>callback\<close> of line 198 gives the promise: \<open>resolve\<close> or
  \<open>reject\<close>.
\<close>

datatype outcome = Resolved jsvalue | Rejected js_error

text \<open>
  The \<open>end\<close> listener after its guard, lines 290 to 307, on the accumulated body text
  and \<open>response.statusCode\<close>. \<open>JSON_parse\<close> is the platform's \<open>JSON.parse\<close>,
  \<open>None\<close> when it throws. The result is \<open>Inr\<close> of the outcome the callback is
  called with, or \<open>Inl\<close> of an exception that leaves the listener before the callback
  is called.
\<close>

definition classify :: "(string \<Rightarrow> jsvalue option) \<Rightarrow> string \<Rightarrow> int \<Rightarrow> js_error + outcome" where
  "classify JSON_parse responseData statusCode =
     (case JSON_parse responseData of
        None \<Rightarrow> Inr (Rejected (Error (''API error (malformed API response): '' @ responseData)))
      | Some parsedData \<Rightarrow>
          if statusCode < 200 \<or> statusCode > 399 then
            (let errString =
                   coalesce (opt_chain (opt_chain parsedData ''meta'') ''msg'')
                     (coalesce (opt_chain parsedData ''error'') (JStr ''unknown''))
             in case ToString errString of
                  None \<Rightarrow> Inl cannot_convert
                | Some s \<Rightarrow>
                    Inr (Rejected (Error (''API error: '' @ String_int statusCode @ '' '' @ s))))
          else if truthy (opt_chain parsedData ''response'')
          then Inr (Resolved (get_prop parsedData ''response''))
          else
            (case ToString parsedData of
               None \<Rightarrow> Inl cannot_convert
             | Some s \<Rightarrow> Inr (Rejected (Error (''API error (malformed API response): '' @ s)))))"

text \<open>
  The state the listeners of one request share (lines 278 and 279), with the calls of the
  callback and the exceptions that left a listener, in order.
\<close>

record request_state =
  responseData :: string
  callbackCalled :: bool
  settled :: "outcome list"
  uncaught :: "js_error list"

definition initial_state :: request_state where
  "initial_state = \<lparr> responseData = [], callbackCalled = False, settled = [], uncaught = [] \<rparr>"

datatype event =
    ResponseData string
  | ResponseEnd int
  | RequestError js_error

fun handle :: "(string \<Rightarrow> jsvalue option) \<Rightarrow> request_state \<Rightarrow> event \<Rightarrow> request_state" where
  "handle JSON_parse s (ResponseData chunk) = s\<lparr>responseData := responseData s @ chunk\<rparr>"
| "handle JSON_parse s (ResponseEnd statusCode) =
     (if callbackCalled s then s
      else (case classify JSON_parse (responseData s) statusCode of
              Inl e \<Rightarrow> s\<lparr>callbackCalled := True, uncaught := uncaught s @ [e]\<rparr>
            | Inr out \<Rightarrow> s\<lparr>callbackCalled := True, settled := settled s @ [out]\<rparr>))"
| "handle JSON_parse s (RequestError e) =
     (if callbackCalled s then s
      else s\<lparr>callbackCalled := True, settled := settled s @ [Rejected e]\<rparr>)"

definition run_events :: "(string \<Rightarrow> jsvalue option) \<Rightarrow> event list \<Rightarrow> request_state" where
  "run_events JSON_parse es = foldl (handle JSON_parse) initial_state es"

text \<open>
  The invariant of the shared state: the callback has been called at most once, and only
  with the guard set.
\<close>

definition one_shot :: "request_state \<Rightarrow> bool" where
  "one_shot s = (length (settled s) \<le> 1 \<and> (settled s = [] \<or> callbackCalled s))"

section \<open>The encoder as the specification words it\<close>



section \<open>The planner for reads as the specification words it\<close>

text \<open>
  A logical parameter can be placed in a query string when its value, or each element of
  an array value, converts to a string.
\<close>

definition stringifiable :: "jsvalue \<Rightarrow> bool" where
  "stringifiable v =
     (case v of
        JArr xs \<Rightarrow> list_all (\<lambda>x. ToString x \<noteq> None) xs
      | _ \<Rightarrow> ToString v \<noteq> None)"

text \<open>The indexed keys \<open>k[0]\<close>, \<open>k[1]\<close>, ... of an array-valued parameter \<open>k\<close>.\<close>

definition indexed_keys :: "string \<times> jsvalue \<Rightarrow> string list" where
  "indexed_keys kv =
     (case kv of (key, v) \<Rightarrow>
        (case v of JArr xs \<Rightarrow> map (index_key key) [0..<length xs] | _ \<Rightarrow> []))"

text \<open>
  The query pairs the specification (section 4.2) gives for one logical parameter: an
  array becomes one pair per element under the indexed keys, in element order; a scalar
  becomes one pair under its key.
\<close>

definition spec_query_pairs :: "string \<times> jsvalue \<Rightarrow> search_params" where
  "spec_query_pairs kv =
     (case kv of (key, v) \<Rightarrow>
        (case v of
           JArr xs \<Rightarrow> map (\<lambda>i. (index_key key i, the (ToString (xs ! i)))) [0..<length xs]
         | _ \<Rightarrow> [(key, the (ToString v))]))"

section \<open>Properties of the transport and the completion guard\<close>

text \<open>
  C8. The transport module is chosen by comparing \<open>url.protocol\<close> with the text
  \<open>http\<close>. The protocol of a URL ends with a colon, so the comparison fails for
  every URL: a URL with the plain http scheme is given to the https module, not to the
  plain transport the claim names.
\<close>

theorem httpModel_plain_http: "httpModel (u\<lparr>scheme := ''http''\<rparr>) = Https_module"
  by (simp add: httpModel_def protocol_def)

lemma httpModel_always_https: "httpModel u = Https_module"
  by (simp add: httpModel_def protocol_def)

lemma handle_keeps_called: "callbackCalled s \<Longrightarrow> callbackCalled (handle P s ev)"
  by (cases ev) (auto split: sum.splits)

lemma handle_settled_called: "callbackCalled s \<Longrightarrow> settled (handle P s ev) = settled s"
  by (cases ev) auto

lemma foldl_handle_settled:
  "callbackCalled s \<Longrightarrow> settled (foldl (handle P) s es) = settled s"
  by (induction es arbitrary: s) (simp_all add: handle_keeps_called handle_settled_called)

lemma handle_one_shot: "one_shot s \<Longrightarrow> one_shot (handle P s ev)"
  by (cases ev) (auto simp: one_shot_def split: sum.splits)

lemma foldl_handle_one_shot: "one_shot s \<Longrightarrow> one_shot (foldl (handle P) s es)"
  by (induction es arbitrary: s) (simp_all add: handle_one_shot)

lemma run_events_one_shot: "one_shot (run_events P es)"
  unfolding run_events_def
  by (rule foldl_handle_one_shot) (simp add: one_shot_def initial_state_def)

text \<open>
  C1. Whatever data, end and error events a request delivers, in whatever order and
  number, the callback is called at most once. Once it has been called, an end event and
  an error event leave the state as it is, and no sequence of further events changes the
  outcome.
\<close>

theorem one_shot_completion:
  "length (settled (run_events P es)) \<le> 1 \<and>
   (settled (run_events P es) \<noteq> [] \<longrightarrow>
      handle P (run_events P es) (ResponseEnd st) = run_events P es \<and>
      handle P (run_events P es) (RequestError e) = run_events P es \<and>
      settled (run_events P (es @ es')) = settled (run_events P es))"
proof -
  have inv: "one_shot (run_events P es)" by (rule run_events_one_shot)
  have "settled (run_events P (es @ es')) = settled (run_events P es)"
    if "settled (run_events P es) \<noteq> []"
  proof -
    from inv that have "callbackCalled (run_events P es)" by (simp add: one_shot_def)
    then show ?thesis
      using foldl_handle_settled [of "run_events P es" P es'] by (simp add: run_events_def)
  qed
  with inv show ?thesis by (auto simp: one_shot_def)
qed

theorem one_shot_completion_witness:
  "settled (run_events (\<lambda>s. None) [RequestError (Error ''ECONNRESET'')])
     = [Rejected (Error ''ECONNRESET'')]
   \<and> handle (\<lambda>s. None) (run_events (\<lambda>s. None) [RequestError (Error ''ECONNRESET'')])
        (ResponseEnd 200)
     = run_events (\<lambda>s. None) [RequestError (Error ''ECONNRESET'')]
   \<and> settled (run_events (\<lambda>s. None)
        ([RequestError (Error ''ECONNRESET'')] @ [ResponseData ''{}'', ResponseEnd 200]))
     = [Rejected (Error ''ECONNRESET'')]"
  using one_shot_completion [of "\<lambda>s. None" "[RequestError (Error ''ECONNRESET'')]" 200
      "Error ''x''" "[ResponseData ''{}'', ResponseEnd 200]"]
  by (simp add: run_events_def initial_state_def)

section \<open>Properties of the constructor\<close>

lemma Client_baseUrl_error:
  "Client_baseUrl new_URL URL_toString options = Inl e \<Longrightarrow> \<exists>msg. e = TypeError msg"
  by (auto simp: Client_baseUrl_def Let_def split: option.splits if_splits)

text \<open>
  C9, as amended. Options that have at least one of \<open>consumer_secret\<close>,
  \<open>token_secret\<close> and \<open>token\<close> but not all four credential fields as non-empty
  strings, and options that have none of the three and a truthy \<open>consumer_key\<close> that
  is not a string, fail the credential checks, so the constructor throws a
  \<open>TypeError\<close> whatever the base URL is. A falsy \<open>consumer_key\<close> given alone
  (the empty string, \<open>null\<close>, \<open>0\<close>) passes the guard of line 139: with a valid
  base URL the constructor returns a client whose credentials are \<open>none\<close>.
\<close>

theorem partial_credentials_rejected:
  "((list_ex (hasOwnProperty opts) [''consumer_secret'', ''token_secret'', ''token''] \<and>
     \<not> list_all (\<lambda>k. truthy (obj_get opts k) \<and> typeof (obj_get opts k) = ''string'')
          [''consumer_key'', ''consumer_secret'', ''token'', ''token_secret''])
    \<or> (\<not> list_ex (hasOwnProperty opts) [''consumer_secret'', ''token_secret'', ''token''] \<and>
        truthy (obj_get opts ''consumer_key'') \<and> typeof (obj_get opts ''consumer_key'') \<noteq> ''string'')
    \<longrightarrow> (\<exists>msg. Client_credentials (Some opts) = Inl (TypeError msg))
      \<and> (\<exists>msg. Client_constructor new_URL URL_toString (Some opts) = Inl (TypeError msg)))
   \<and> (\<not> list_ex (hasOwnProperty opts) [''consumer_secret'', ''token_secret'', ''token''] \<and>
        \<not> truthy (obj_get opts ''consumer_key'')
    \<longrightarrow> Client_credentials (Some opts) = Inr NoneAuth
      \<and> (\<forall>b. Client_baseUrl new_URL URL_toString (Some opts) = Inr b \<longrightarrow>
             Client_constructor new_URL URL_toString (Some opts)
               = Inr \<lparr> baseUrl = b, credentials = NoneAuth, oauthClient = None \<rparr>))"
proof (intro conjI impI)
  assume a: "(list_ex (hasOwnProperty opts) [''consumer_secret'', ''token_secret'', ''token''] \<and>
     \<not> list_all (\<lambda>k. truthy (obj_get opts k) \<and> typeof (obj_get opts k) = ''string'')
          [''consumer_key'', ''consumer_secret'', ''token'', ''token_secret''])
    \<or> (\<not> list_ex (hasOwnProperty opts) [''consumer_secret'', ''token_secret'', ''token''] \<and>
        truthy (obj_get opts ''consumer_key'') \<and> typeof (obj_get opts ''consumer_key'') \<noteq> ''string'')"
  then show c: "\<exists>msg. Client_credentials (Some opts) = Inl (TypeError msg)"
    by (auto simp: Client_credentials_def)
  show "\<exists>msg. Client_constructor new_URL URL_toString (Some opts) = Inl (TypeError msg)"
  proof (cases "Client_baseUrl new_URL URL_toString (Some opts)")
    case (Inl e)
    then show ?thesis
      using Client_baseUrl_error [OF Inl] by (auto simp: Client_constructor_def)
  next
    case (Inr b)
    with c show ?thesis by (auto simp: Client_constructor_def)
  qed
next
  assume n: "\<not> list_ex (hasOwnProperty opts) [''consumer_secret'', ''token_secret'', ''token''] \<and>
        \<not> truthy (obj_get opts ''consumer_key'')"
  then show "Client_credentials (Some opts) = Inr NoneAuth"
    by (simp add: Client_credentials_def)
  then show "\<forall>b. Client_baseUrl new_URL URL_toString (Some opts) = Inr b \<longrightarrow>
             Client_constructor new_URL URL_toString (Some opts)
               = Inr \<lparr> baseUrl = b, credentials = NoneAuth, oauthClient = None \<rparr>"
    by (simp add: Client_constructor_def)
qed

theorem partial_credentials_rejected_witness:
  "Client_constructor
     (\<lambda>s b. Some \<lparr> scheme = ''https'', username = [], password = [], host = ''api.tumblr.com'',
                   pathname = ''/'', searchParams = [], hash = [] \<rparr>)
     (\<lambda>u. ''https://api.tumblr.com/'')
     (Some [(''consumer_key'', JStr ''key''), (''token'', JStr ''tok'')])
   = Inl (TypeError
       ''Provide consumer_key or all oauth credentials. Invalid consumer_secret provided.'')
   \<and> Client_constructor
     (\<lambda>s b. Some \<lparr> scheme = ''https'', username = [], password = [], host = ''api.tumblr.com'',
                   pathname = ''/'', searchParams = [], hash = [] \<rparr>)
     (\<lambda>u. ''https://api.tumblr.com/'')
     (Some [(''consumer_key'', JNum 5)])
   = Inl (TypeError ''You must provide a consumer_key.'')
   \<and> Client_constructor
     (\<lambda>s b. Some \<lparr> scheme = ''https'', username = [], password = [], host = ''api.tumblr.com'',
                   pathname = ''/'', searchParams = [], hash = [] \<rparr>)
     (\<lambda>u. ''https://api.tumblr.com/'')
     (Some [(''consumer_key'', JNull)])
   = Inr \<lparr> baseUrl = ''https://api.tumblr.com/'', credentials = NoneAuth, oauthClient = None \<rparr>"
  using
    partial_credentials_rejected [of "[(''consumer_key'', JStr ''key''), (''token'', JStr ''tok'')]"
      "\<lambda>s b. Some \<lparr> scheme = ''https'', username = [], password = [], host = ''api.tumblr.com'',
                   pathname = ''/'', searchParams = [], hash = [] \<rparr>"
      "\<lambda>u. ''https://api.tumblr.com/''"]
    partial_credentials_rejected [of "[(''consumer_key'', JNum 5)]"
      "\<lambda>s b. Some \<lparr> scheme = ''https'', username = [], password = [], host = ''api.tumblr.com'',
                   pathname = ''/'', searchParams = [], hash = [] \<rparr>"
      "\<lambda>u. ''https://api.tumblr.com/''"]
    partial_credentials_rejected [of "[(''consumer_key'', JNull)]"
      "\<lambda>s b. Some \<lparr> scheme = ''https'', username = [], password = [], host = ''api.tumblr.com'',
                   pathname = ''/'', searchParams = [], hash = [] \<rparr>"
      "\<lambda>u. ''https://api.tumblr.com/''"]
  by (simp add: Client_constructor_def Client_baseUrl_def Client_credentials_def
      hasOwnProperty_def obj_get_def coalesce_def nullish_def API_BASE_URL_def)

text \<open>
  The claim as stated fails for an empty \<open>consumer_key\<close> given alone: the
  constructor returns a client without credentials.
\<close>

theorem empty_consumer_key_counterexample:
  "Client_constructor
     (\<lambda>s b. Some \<lparr> scheme = ''https'', username = [], password = [], host = ''api.tumblr.com'',
                   pathname = ''/'', searchParams = [], hash = [] \<rparr>)
     (\<lambda>u. ''https://api.tumblr.com/'')
     (Some [(''consumer_key'', JStr [])])
   = Inr \<lparr> baseUrl = ''https://api.tumblr.com/'', credentials = NoneAuth, oauthClient = None \<rparr>"
  by (simp add: Client_constructor_def Client_baseUrl_def Client_credentials_def
      hasOwnProperty_def obj_get_def coalesce_def nullish_def API_BASE_URL_def)

section \<open>Properties of the request planner\<close>

lemma Map_has_iff: "Map_has m k \<longleftrightarrow> map_of m k \<noteq> None"
  by (simp add: Map_has_def map_of_eq_None_iff)

lemma Map_set_fresh: "\<not> Map_has m k \<Longrightarrow> Map_set m k v = m @ [(k, v)]"
  by (simp add: Map_set_def)

lemma map_of_replace:
  "map_of (map (\<lambda>(k', v'). if k' = k then (k', v) else (k', v')) m) x =
     (if x = k then (if k \<in> fst ` set m then Some v else None) else map_of m x)"
  by (induction m) (auto split: if_splits)

lemma map_of_Map_set: "map_of (Map_set m k v) x = (if x = k then Some v else map_of m x)"
proof (cases "Map_has m k")
  case True
  then show ?thesis by (simp add: Map_set_def Map_has_def map_of_replace)
next
  case False
  then have "map_of m k = None" by (simp add: Map_has_iff)
  then show ?thesis
    using False by (simp add: Map_set_def map_add_def split: option.splits)
qed

lemma foldl_Map_set_distinct:
  "distinct (map fst (m @ es)) \<Longrightarrow> foldl (\<lambda>m (k, v). Map_set m k v) m es = m @ es"
proof (induction es arbitrary: m)
  case Nil
  then show ?case by simp
next
  case (Cons p es)
  obtain k v where p: "p = (k, v)" by (cases p)
  from Cons.prems p have fresh: "\<not> Map_has m k" by (auto simp: Map_has_def)
  from Cons.prems p have "distinct (map fst ((m @ [(k, v)]) @ es))" by simp
  from Cons.IH [OF this] show ?case by (simp add: p Map_set_fresh [OF fresh])
qed

lemma Map_new_distinct: "distinct (map fst es) \<Longrightarrow> Map_new es = es"
  using foldl_Map_set_distinct [of "[]" es] by (simp add: Map_new_def)

lemma map_of_merge_search:
  "map_of (merge_search q m) k =
     (case map_of m k of Some v \<Rightarrow> Some v | None \<Rightarrow> map_option JStr (map_of q k))"
proof (induction q arbitrary: m)
  case Nil
  then show ?case by (simp split: option.splits)
next
  case (Cons p q)
  obtain key v where p: "p = (key, v)" by (cases p)
  show ?case
    by (simp add: p Cons.IH map_of_Map_set Map_has_iff split: option.splits)
qed

lemma Map_set_not_Nil: "Map_set m k v \<noteq> []"
  by (auto simp: Map_set_def Map_has_def)

lemma merge_search_Nil: "merge_search q m = [] \<longleftrightarrow> q = [] \<and> m = []"
proof (induction q arbitrary: m)
  case Nil
  then show ?case by simp
next
  case (Cons p q)
  obtain key v where p: "p = (key, v)" by (cases p)
  show ?case by (auto simp: p Cons.IH Map_set_not_Nil Map_has_def)
qed

text \<open>
  C6. For a POST or PUT request the planner returns the URL with its query string
  cleared. The payload holds every logical parameter with its own value; a key of the
  path's query string is taken over (with its first value, as a string) exactly when no
  logical parameter has that key. The payload is absent, never an empty map, exactly when
  there are neither parameters nor query pairs. \<open>ps\<close> are the entries of the parameter
  object, empty when no parameters are given.
\<close>

theorem write_merges_query_into_payload:
  assumes url: "new_URL apiPath (Some base) = Some u"
    and meth: "method = POST \<or> method = PUT"
    and keys: "distinct (map fst ps)"
    and given: "params = None \<and> ps = [] \<or> params = Some ps"
  shows "\<exists>data. prepareRequestUrlAndRequestData new_URL base apiPath method params
             = Inr (u\<lparr>searchParams := []\<rparr>, data)
           \<and> data \<noteq> Some []
           \<and> (data = None \<longleftrightarrow> ps = [] \<and> searchParams u = [])
           \<and> (\<forall>k. (case data of None \<Rightarrow> None | Some d \<Rightarrow> map_of d k) =
                  (case map_of ps k of
                     Some v \<Rightarrow> Some v
                   | None \<Rightarrow> map_option JStr (map_of (searchParams u) k)))"
proof -
  let ?m = "merge_search (searchParams u) ps"
  have ps: "(case params of None \<Rightarrow> [] | Some ps \<Rightarrow> ps) = ps"
    using given by auto
  have run: "prepareRequestUrlAndRequestData new_URL base apiPath method params
      = Inr (u\<lparr>searchParams := []\<rparr>, if ?m \<noteq> [] then Some ?m else None)"
    using url meth by (auto simp: prepareRequestUrlAndRequestData_def ps Map_new_distinct [OF keys])
  show ?thesis
  proof (cases "?m = []")
    case True
    then have "ps = []" "searchParams u = []" by (simp_all add: merge_search_Nil)
    with run True show ?thesis by simp
  next
    case False
    then have "\<not> (ps = [] \<and> searchParams u = [])" by (auto simp: merge_search_Nil)
    with run False show ?thesis by (auto simp: map_of_merge_search)
  qed
qed

theorem write_merges_query_into_payload_witness:
  "prepareRequestUrlAndRequestData
     (\<lambda>p b. Some \<lparr> scheme = ''https'', username = [], password = [], host = ''api.tumblr.com'',
                   pathname = ''/v2/user/follow'',
                   searchParams = [(''url'', ''inherited''), (''email'', ''a@b.c'')], hash = [] \<rparr>)
     ''https://api.tumblr.com/'' ''/v2/user/follow?url=inherited&email=a@b.c'' POST
     (Some [(''url'', JStr ''explicit'')])
   = Inr (\<lparr> scheme = ''https'', username = [], password = [], host = ''api.tumblr.com'',
                   pathname = ''/v2/user/follow'', searchParams = [], hash = [] \<rparr>,
          Some [(''url'', JStr ''explicit''), (''email'', JStr ''a@b.c'')])"
  using write_merges_query_into_payload
    [of "\<lambda>p b. Some \<lparr> scheme = ''https'', username = [], password = [], host = ''api.tumblr.com'',
                   pathname = ''/v2/user/follow'',
                   searchParams = [(''url'', ''inherited''), (''email'', ''a@b.c'')], hash = [] \<rparr>"
        "''/v2/user/follow?url=inherited&email=a@b.c''" "''https://api.tumblr.com/''" _ POST
        "[(''url'', JStr ''explicit'')]" "Some [(''url'', JStr ''explicit'')]"]
  by (simp add: prepareRequestUrlAndRequestData_def Map_new_def Map_set_def Map_has_def)

section \<open>Properties of the encoder and the classifier\<close>








text \<open>
  An array inside an array is handed to \<open>form.append\<close> as it is and refused: the
  request is not sent, and the entries after it are never reached.
\<close>

lemma encoder_refuses_nested_array:
  "make_body (\<lambda>v. None) JSON_stringify
     (Some [(''data'', JArr [JArr [JStr ''a'', JStr ''b'']]), (''after'', JStr ''x'')])
   = Inl (Error ''Arrays are not supported.'')"
  by (simp add: make_body_def Map_has_def form_entry_def form_append_def)



text \<open>
  C2. The classifier builds its error messages by converting parsed data to a string. A
  body that parses to an object with an own property \<open>toString\<close> cannot be converted:
  with a success status and no \<open>response\<close> field, the listener throws a
  \<open>TypeError\<close> and the callback is never called, where the claim has the request
  reject with a malformed-response error.
\<close>

theorem classify_unconvertible_body:
  "classify (\<lambda>s. if s = ''{\"toString\":1}'' then Some (JObj [(''toString'', JNum 1)]) else None)
     ''{\"toString\":1}'' 200
   = Inl (TypeError ''Cannot convert object to primitive value'')"
  by (simp add: classify_def opt_chain_def nullish_def obj_get_def cannot_convert_def)

text \<open>
  The same happens outside the success range when the chosen message is such an object,
  and the request then stays pending whatever events follow.
\<close>

lemma classify_unconvertible_message:
  "classify (\<lambda>s. if s = ''{\"meta\":{\"msg\":{\"toString\":1}}}''
                 then Some (JObj [(''meta'', JObj [(''msg'', JObj [(''toString'', JNum 1)])])])
                 else None)
     ''{\"meta\":{\"msg\":{\"toString\":1}}}'' 500
   = Inl (TypeError ''Cannot convert object to primitive value'')"
  by (simp add: classify_def opt_chain_def coalesce_def nullish_def obj_get_def cannot_convert_def)

lemma unconvertible_body_never_settles:
  "settled (run_events
      (\<lambda>s. if s = ''{\"toString\":1}'' then Some (JObj [(''toString'', JNum 1)]) else None)
      [ResponseData ''{\"toString\":1}'', ResponseEnd 200, RequestError (Error ''late'')]) = []"
  by (simp add: run_events_def initial_state_def classify_def opt_chain_def nullish_def
      obj_get_def cannot_convert_def)

text \<open>
  Wherever the conversion succeeds, the four cases of the classification are as claimed:
  a body that is not JSON, a status outside 200 to 399, a truthy \<open>response\<close> field,
  and a body without one.
\<close>

lemma classify_malformed:
  "JSON_parse raw = None \<Longrightarrow>
   classify JSON_parse raw statusCode
     = Inr (Rejected (Error (''API error (malformed API response): '' @ raw)))"
  by (simp add: classify_def)

lemma classify_api_error:
  assumes "JSON_parse raw = Some parsedData"
    and "statusCode < 200 \<or> statusCode > 399"
    and "ToString (coalesce (opt_chain (opt_chain parsedData ''meta'') ''msg'')
            (coalesce (opt_chain parsedData ''error'') (JStr ''unknown''))) = Some s"
  shows "classify JSON_parse raw statusCode
     = Inr (Rejected (Error (''API error: '' @ String_int statusCode @ '' '' @ s)))"
  using assms by (auto simp: classify_def)

lemma classify_success:
  assumes "JSON_parse raw = Some parsedData"
    and "200 \<le> statusCode \<and> statusCode \<le> 399"
    and "truthy (opt_chain parsedData ''response'')"
  shows "classify JSON_parse raw statusCode = Inr (Resolved (get_prop parsedData ''response''))"
  using assms by (auto simp: classify_def)

lemma classify_no_response:
  assumes "JSON_parse raw = Some parsedData"
    and "200 \<le> statusCode \<and> statusCode \<le> 399"
    and "\<not> truthy (opt_chain parsedData ''response'')"
    and "ToString parsedData = Some s"
  shows "classify JSON_parse raw statusCode
     = Inr (Rejected (Error (''API error (malformed API response): '' @ s)))"
  using assms by (auto simp: classify_def)

section \<open>Properties of the NPF content transformer\<close>

text \<open>The decimal text of a number determines the number, and has digits only.\<close>

lemma digit_char_code: "d < 10 \<Longrightarrow> of_char (digit_char d) = 48 + d"
proof -
  assume "d < 10"
  then have "d \<in> {0, 1, 2, 3, 4, 5, 6, 7, 8, 9}" by auto
  then show ?thesis by (auto simp: digit_char_def)
qed

lemma digit_char_inj:
  assumes "a < 10" and "b < 10" and "digit_char a = digit_char b"
  shows "a = b"
proof -
  have "(of_char (digit_char a) :: nat) = of_char (digit_char b)"
    by (simp only: assms(3))
  then have "48 + a = 48 + b"
    by (simp only: digit_char_code [OF assms(1)] digit_char_code [OF assms(2)])
  then show ?thesis by simp
qed

lemma digit_char_is_digit: "d < 10 \<Longrightarrow> digit_char d \<in> set ''0123456789''"
proof -
  assume "d < 10"
  then have "d \<in> {0, 1, 2, 3, 4, 5, 6, 7, 8, 9}" by auto
  then show ?thesis by (auto simp: digit_char_def)
qed

lemma String_nat_not_Nil: "String_nat n \<noteq> []"
  by (subst String_nat.simps) simp

lemma String_nat_digits: "set (String_nat n) \<subseteq> set ''0123456789''"
proof (induction n rule: String_nat.induct)
  case (1 n)
  show ?case
  proof (cases "n < 10")
    case True
    then show ?thesis
      using digit_char_is_digit [of n] by (subst String_nat.simps) simp
  next
    case False
    have "n mod 10 < 10" by simp
    then have "digit_char (n mod 10) \<in> set ''0123456789''" by (rule digit_char_is_digit)
    with False 1 show ?thesis by (subst String_nat.simps) simp
  qed
qed

lemma String_nat_small: "n < 10 \<Longrightarrow> String_nat n = [digit_char n]"
  by (subst String_nat.simps) simp

lemma String_nat_large:
  "\<not> n < 10 \<Longrightarrow> String_nat n = String_nat (n div 10) @ [digit_char (n mod 10)]"
  by (subst String_nat.simps) simp

lemma String_nat_length: "length (String_nat n) = 1 \<longleftrightarrow> n < 10"
proof (cases "n < 10")
  case True
  then show ?thesis by (simp add: String_nat_small)
next
  case False
  have "length (String_nat (n div 10)) \<noteq> 0" using String_nat_not_Nil by simp
  with False show ?thesis by (simp add: String_nat_large)
qed

lemma String_nat_inj: "String_nat n = String_nat m \<Longrightarrow> n = m"
proof (induction n arbitrary: m rule: String_nat.induct)
  case (1 n)
  have "length (String_nat n) = length (String_nat m)"
    by (simp only: "1.prems")
  then have len: "n < 10 \<longleftrightarrow> m < 10"
    by (simp only: String_nat_length [symmetric])
  show ?case
  proof (cases "n < 10")
    case True
    with len have m: "m < 10" by blast
    have "[digit_char n] = [digit_char m]"
      using "1.prems" by (simp only: String_nat_small [OF True] String_nat_small [OF m])
    then have "digit_char n = digit_char m" by blast
    with True m show ?thesis by (rule digit_char_inj)
  next
    case False
    with len have m: "\<not> m < 10" by blast
    have "String_nat (n div 10) @ [digit_char (n mod 10)]
        = String_nat (m div 10) @ [digit_char (m mod 10)]"
      using "1.prems" by (simp only: String_nat_large [OF False] String_nat_large [OF m])
    then have parts: "String_nat (n div 10) = String_nat (m div 10)"
      "digit_char (n mod 10) = digit_char (m mod 10)"
      by (simp_all only: append1_eq_conv)
    from "1.IH" [OF False parts(1)] have d: "n div 10 = m div 10" .
    have "n mod 10 < 10" and "m mod 10 < 10" by simp_all
    from digit_char_inj [OF this parts(2)] have r: "n mod 10 = m mod 10" .
    have "n = 10 * (n div 10) + n mod 10" by simp
    also have "\<dots> = 10 * (m div 10) + m mod 10" by (simp only: d r)
    also have "\<dots> = m" by simp
    finally show ?thesis .
  qed
qed

lemma String_nat_eq_iff: "String_nat n = String_nat m \<longleftrightarrow> n = m"
  by (auto dest: String_nat_inj)

lemma json_not_index: "String_nat n \<noteq> ''json''"
proof
  assume "String_nat n = ''json''"
  then have "CHR ''j'' \<in> set (String_nat n)" by simp
  with String_nat_digits [of n] show False by auto
qed

text \<open>Defining a property changes the value of that key only and keeps the keys distinct.\<close>

lemma map_fst_replace:
  "map fst (map (\<lambda>(k', v'). if k' = k then (k', v) else (k', v')) m) = map fst m"
  by (induction m) auto

lemma map_of_insert_index:
  "k \<notin> fst ` set es \<Longrightarrow>
   map_of (insert_index n k v es) x = (if x = k then Some v else map_of es x)"
  by (induction es) (auto split: option.splits)

lemma set_insert_index: "set (insert_index n k v es) = insert (k, v) (set es)"
  by (induction es) (auto split: option.splits if_splits)

lemma distinct_insert_index:
  "k \<notin> fst ` set es \<Longrightarrow> distinct (map fst es) \<Longrightarrow> distinct (map fst (insert_index n k v es))"
  by (induction es) (auto simp: set_insert_index split: option.splits)

lemma map_of_append_fresh:
  "k \<notin> fst ` set es \<Longrightarrow> map_of (es @ [(k, v)]) x = (if x = k then Some v else map_of es x)"
proof -
  assume "k \<notin> fst ` set es"
  then have "map_of es k = None" by (simp add: map_of_eq_None_iff)
  then show ?thesis by (simp add: map_add_def split: option.splits)
qed

lemma map_of_obj_define: "map_of (obj_define es k v) x = (if x = k then Some v else map_of es x)"
proof (cases "k \<in> fst ` set es")
  case True
  then show ?thesis by (simp add: obj_define_def map_of_replace)
next
  case False
  show ?thesis
  proof (cases "array_index k")
    case None
    with False show ?thesis
      by (simp add: obj_define_def map_of_append_fresh del: map_of_append)
  next
    case (Some n)
    with False show ?thesis by (simp add: obj_define_def map_of_insert_index)
  qed
qed

lemma obj_get_obj_define: "obj_get (obj_define es k v) x = (if x = k then v else obj_get es x)"
  by (simp add: obj_get_def map_of_obj_define)

lemma distinct_obj_define:
  "distinct (map fst es) \<Longrightarrow> distinct (map fst (obj_define es k v))"
proof (cases "k \<in> fst ` set es")
  case True
  assume "distinct (map fst es)"
  with True show ?thesis
    unfolding obj_define_def by (simp add: map_fst_replace del: map_map)
next
  case False
  assume "distinct (map fst es)"
  with False show ?thesis
    by (auto simp: obj_define_def distinct_insert_index split: option.splits)
qed

lemma distinct_foldl_obj_define:
  "distinct (map fst t) \<Longrightarrow> distinct (map fst (foldl (\<lambda>obj (k, v). obj_define obj k v) t es))"
  by (induction es arbitrary: t) (auto simp: distinct_obj_define)

lemma distinct_obj_spread: "distinct (map fst t) \<Longrightarrow> distinct (map fst (obj_spread t es))"
  by (simp add: obj_spread_def distinct_foldl_obj_define)

lemma map_of_foldl_obj_define:
  "distinct (map fst es) \<Longrightarrow>
   map_of (foldl (\<lambda>obj (k, v). obj_define obj k v) t es) x =
     (case map_of es x of Some v \<Rightarrow> Some v | None \<Rightarrow> map_of t x)"
proof (induction es arbitrary: t)
  case Nil
  then show ?case by simp
next
  case (Cons p es)
  obtain k v where p: "p = (k, v)" by (cases p)
  from Cons.prems p have fresh: "map_of es k = None" by (simp add: map_of_eq_None_iff)
  from Cons.prems have "distinct (map fst es)" by simp
  from Cons.IH [OF this] fresh show ?case
    by (auto simp: p map_of_obj_define split: option.splits)
qed

lemma map_of_obj_spread:
  "distinct (map fst es) \<Longrightarrow>
   map_of (obj_spread t es) x = (case map_of es x of Some v \<Rightarrow> Some v | None \<Rightarrow> map_of t x)"
  by (simp add: obj_spread_def map_of_foldl_obj_define)

text \<open>
  The loop over the content blocks, started at any index with any map of streams: the
  block at position \<open>i\<close> is rewritten exactly when its \<open>media\<close> is a
  \<open>ReadStream\<close>, and the map gains exactly the keys of those positions.
\<close>

lemma distinct_Map_set: "distinct (map fst m) \<Longrightarrow> distinct (map fst (Map_set m k v))"
  unfolding Map_set_def Map_has_def by (auto simp: map_fst_replace simp del: map_map)

lemma transform_block_stream:
  "\<not> nullish b \<Longrightarrow> instanceof_ReadStream (get_prop b ''media'') \<Longrightarrow>
   transform_block b n ms =
     Inr (JObj (obj_define (case b of JObj es \<Rightarrow> es | _ \<Rightarrow> []) ''media''
                  (JObj [(''identifier'', JStr (String_nat n))])),
          Map_set ms (String_nat n) (get_prop b ''media''))"
  by (cases "get_prop b ''media''") (simp_all add: transform_block_def)

lemma transform_block_other:
  "\<not> nullish b \<Longrightarrow> \<not> instanceof_ReadStream (get_prop b ''media'') \<Longrightarrow>
   transform_block b n ms = Inr (b, ms)"
  by (simp add: transform_block_def)

lemma content_map_spec:
  assumes "\<forall>b\<in>set blocks. \<not> nullish b"
  shows "\<exists>tc ms'. content_map blocks n ms = Inr (tc, ms')
      \<and> length tc = length blocks
      \<and> (\<forall>i<length blocks. tc ! i =
            (if instanceof_ReadStream (get_prop (blocks ! i) ''media'')
             then JObj (obj_define (case blocks ! i of JObj es \<Rightarrow> es | _ \<Rightarrow> []) ''media''
                          (JObj [(''identifier'', JStr (String_nat (n + i)))]))
             else blocks ! i))
      \<and> (\<forall>i<length blocks. instanceof_ReadStream (get_prop (blocks ! i) ''media'') \<longrightarrow>
            map_of ms' (String_nat (n + i)) = Some (get_prop (blocks ! i) ''media''))
      \<and> (\<forall>k. (\<forall>i<length blocks. instanceof_ReadStream (get_prop (blocks ! i) ''media'') \<longrightarrow>
                  k \<noteq> String_nat (n + i)) \<longrightarrow> map_of ms' k = map_of ms k)
      \<and> (distinct (map fst ms) \<longrightarrow> distinct (map fst ms'))
      \<and> (ms' = [] \<longleftrightarrow> ms = [] \<and>
            (\<forall>i<length blocks. \<not> instanceof_ReadStream (get_prop (blocks ! i) ''media'')))"
  using assms
proof (induction blocks arbitrary: n ms)
  case Nil
  then show ?case by simp
next
  case (Cons b bs)
  let ?RS = "\<lambda>x. instanceof_ReadStream (get_prop x ''media'')"
  let ?out = "\<lambda>x j. if ?RS x
             then JObj (obj_define (case x of JObj es \<Rightarrow> es | _ \<Rightarrow> []) ''media''
                          (JObj [(''identifier'', JStr (String_nat j))]))
             else x"
  define ms1 where "ms1 = (if ?RS b then Map_set ms (String_nat n) (get_prop b ''media'') else ms)"
  from Cons.prems have nb: "\<not> nullish b" and nbs: "\<forall>x\<in>set bs. \<not> nullish x" by simp_all
  have tb: "transform_block b n ms = Inr (?out b n, ms1)"
    using nb by (simp add: ms1_def transform_block_stream transform_block_other)
  from Cons.IH [OF nbs, of "Suc n" ms1]
  obtain tc ms' where run: "content_map bs (Suc n) ms1 = Inr (tc, ms')"
    and len: "length tc = length bs"
    and nth: "\<forall>i<length bs. tc ! i = ?out (bs ! i) (Suc n + i)"
    and ext: "\<forall>i<length bs. ?RS (bs ! i) \<longrightarrow>
            map_of ms' (String_nat (Suc n + i)) = Some (get_prop (bs ! i) ''media'')"
    and oth: "\<forall>k. (\<forall>i<length bs. ?RS (bs ! i) \<longrightarrow> k \<noteq> String_nat (Suc n + i)) \<longrightarrow>
            map_of ms' k = map_of ms1 k"
    and dis: "distinct (map fst ms1) \<longrightarrow> distinct (map fst ms')"
    and emp: "ms' = [] \<longleftrightarrow> ms1 = [] \<and> (\<forall>i<length bs. \<not> ?RS (bs ! i))"
    by blast
  have res: "content_map (b # bs) n ms = Inr (?out b n # tc, ms')"
    by (simp add: tb run)
  have c1: "length (?out b n # tc) = length (b # bs)" by (simp add: len)
  have c2: "(?out b n # tc) ! i = ?out ((b # bs) ! i) (n + i)" if "i < length (b # bs)" for i
  proof (cases i)
    case 0
    then show ?thesis by simp
  next
    case (Suc j)
    with that nth show ?thesis by simp
  qed
  have first: "map_of ms' (String_nat n) = map_of ms1 (String_nat n)"
    using oth by (simp add: String_nat_eq_iff)
  have c3: "map_of ms' (String_nat (n + i)) = Some (get_prop ((b # bs) ! i) ''media'')"
    if "i < length (b # bs)" and "?RS ((b # bs) ! i)" for i
  proof (cases i)
    case 0
    with that first show ?thesis by (simp add: ms1_def map_of_Map_set)
  next
    case (Suc j)
    with that ext show ?thesis by simp
  qed
  have c4: "map_of ms' k = map_of ms k"
    if k: "\<forall>i<length (b # bs). ?RS ((b # bs) ! i) \<longrightarrow> k \<noteq> String_nat (n + i)" for k
  proof -
    have "\<forall>i<length bs. ?RS (bs ! i) \<longrightarrow> k \<noteq> String_nat (Suc n + i)"
    proof (intro allI impI)
      fix i assume "i < length bs" and "?RS (bs ! i)"
      with k [rule_format, of "Suc i"] show "k \<noteq> String_nat (Suc n + i)" by simp
    qed
    with oth have "map_of ms' k = map_of ms1 k" by blast
    moreover have "map_of ms1 k = map_of ms k"
      using k [rule_format, of 0] by (simp add: ms1_def map_of_Map_set)
    ultimately show ?thesis by simp
  qed
  have c5: "distinct (map fst ms) \<longrightarrow> distinct (map fst ms')"
    using dis by (simp add: ms1_def distinct_Map_set)
  have ms1_emp: "ms1 = [] \<longleftrightarrow> ms = [] \<and> \<not> ?RS b"
    by (simp add: ms1_def Map_set_not_Nil)
  have c6: "ms' = [] \<longleftrightarrow> ms = [] \<and> (\<forall>i<length (b # bs). \<not> ?RS ((b # bs) ! i))"
  proof -
    have "(\<forall>i<length (b # bs). \<not> ?RS ((b # bs) ! i))
        \<longleftrightarrow> \<not> ?RS b \<and> (\<forall>i<length bs. \<not> ?RS (bs ! i))"
      by (auto simp: less_Suc_eq_0_disj)
    with emp ms1_emp show ?thesis by blast
  qed
  from res c1 c2 c3 c4 c5 c6 show ?case by blast
qed

lemma content_map_from_start:
  assumes "\<forall>b\<in>set blocks. \<not> nullish b"
  shows "\<exists>tc ms. content_map blocks 0 [] = Inr (tc, ms)
      \<and> length tc = length blocks
      \<and> (\<forall>i<length blocks. tc ! i =
            (if instanceof_ReadStream (get_prop (blocks ! i) ''media'')
             then JObj (obj_define (case blocks ! i of JObj es \<Rightarrow> es | _ \<Rightarrow> []) ''media''
                          (JObj [(''identifier'', JStr (String_nat i))]))
             else blocks ! i))
      \<and> (\<forall>i<length blocks. instanceof_ReadStream (get_prop (blocks ! i) ''media'') \<longrightarrow>
            map_of ms (String_nat i) = Some (get_prop (blocks ! i) ''media''))
      \<and> (\<forall>k. (\<forall>i<length blocks. instanceof_ReadStream (get_prop (blocks ! i) ''media'') \<longrightarrow>
                  k \<noteq> String_nat i) \<longrightarrow> map_of ms k = None)
      \<and> distinct (map fst ms)
      \<and> (ms = [] \<longleftrightarrow>
            (\<forall>i<length blocks. \<not> instanceof_ReadStream (get_prop (blocks ! i) ''media'')))"
  using content_map_spec [OF assms, of 0 "[]"] by (simp cong: if_cong)

lemma those_strings:
  "those (map ((\<lambda>x. if x = JUndefined \<or> x = JNull then Some [] else ToString x) \<circ> JStr) ts)
     = Some ts"
  by (induction ts) simp_all

lemma ToString_strings: "ToString (JArr (map JStr ts)) = Some (join_comma ts)"
  by (simp add: those_strings)

lemma map_of_filter_keys:
  "map_of (filter (\<lambda>(k, v). P k) xs) x = (if P x then map_of xs x else None)"
  by (induction xs) auto

lemma obj_get_rest:
  "k \<noteq> ''tags'' \<Longrightarrow> k \<noteq> ''content'' \<Longrightarrow>
   obj_get (filter (\<lambda>(k, v). k \<noteq> ''tags'' \<and> k \<noteq> ''content'') input) k = obj_get input k"
  by (simp add: obj_get_def map_of_filter_keys)

lemma obj_spread_Nil: "obj_spread t [] = t"
  by (simp add: obj_spread_def)

lemma obj_spread_single: "obj_spread t [(k, v)] = obj_define t k v"
  by (simp add: obj_spread_def)

lemma map_of_collapsed:
  assumes "distinct (map fst ms)" and "map_of ms ''json'' = None"
  shows "map_of (obj_spread [(''json'', j)] (Object_fromEntries ms)) k =
     (if k = ''json'' then Some j else map_of ms k)"
proof -
  have d: "distinct (map fst (Object_fromEntries ms))"
    unfolding Object_fromEntries_def by (rule distinct_obj_spread) simp
  have m: "map_of (Object_fromEntries ms) x = map_of ms x" for x
    using assms(1) by (simp add: Object_fromEntries_def map_of_obj_spread split: option.splits)
  show ?thesis
    using assms(2) by (simp add: map_of_obj_spread [OF d] m split: option.splits)
qed

lemma transformNpfParams_run:
  assumes content: "obj_get input ''content'' = JArr blocks"
    and run: "content_map blocks 0 [] = Inr (tc, ms)"
    and tags: "obj_get input ''tags'' = JUndefined \<or> (\<exists>ts. obj_get input ''tags'' = JArr (map JStr ts))"
  shows "\<exists>tp. transformNpfParams S input =
            Inr (JObj (if ms \<noteq> []
                       then obj_spread [(''json'', JStr (S (JObj tp)))] (Object_fromEntries ms)
                       else tp))
          \<and> obj_get tp ''content'' = JArr tc
          \<and> (\<forall>k. k \<noteq> ''content'' \<and> k \<noteq> ''tags'' \<longrightarrow> obj_get tp k = obj_get input k)
          \<and> obj_get tp ''tags'' =
              (if Array_isArray (obj_get input ''tags'')
               then JStr (the (ToString (obj_get input ''tags''))) else JUndefined)"
proof -
  let ?params = "filter (\<lambda>(k, v). k \<noteq> ''tags'' \<and> k \<noteq> ''content'') input"
  have no_tags: "obj_get ?params ''tags'' = JUndefined"
    by (simp add: obj_get_def map_of_filter_keys)
  from tags show ?thesis
  proof
    assume t: "obj_get input ''tags'' = JUndefined"
    let ?tp = "obj_define ?params ''content'' (JArr tc)"
    have "transformNpfParams S input =
            Inr (JObj (if ms \<noteq> []
                       then obj_spread [(''json'', JStr (S (JObj ?tp)))] (Object_fromEntries ms)
                       else ?tp))"
      by (simp add: transformNpfParams_def content run t obj_spread_Nil)
    moreover have "obj_get ?tp ''content'' = JArr tc" by (simp add: obj_get_obj_define)
    moreover have "\<forall>k. k \<noteq> ''content'' \<and> k \<noteq> ''tags'' \<longrightarrow> obj_get ?tp k = obj_get input k"
      by (simp add: obj_get_obj_define obj_get_rest)
    moreover have "obj_get ?tp ''tags'' =
              (if Array_isArray (obj_get input ''tags'')
               then JStr (the (ToString (obj_get input ''tags''))) else JUndefined)"
      by (simp add: obj_get_obj_define no_tags t)
    ultimately show ?thesis by blast
  next
    assume "\<exists>ts. obj_get input ''tags'' = JArr (map JStr ts)"
    then obtain ts where t: "obj_get input ''tags'' = JArr (map JStr ts)" ..
    let ?tp = "obj_define (obj_define ?params ''tags'' (JStr (join_comma ts))) ''content'' (JArr tc)"
    have "transformNpfParams S input =
            Inr (JObj (if ms \<noteq> []
                       then obj_spread [(''json'', JStr (S (JObj ?tp)))] (Object_fromEntries ms)
                       else ?tp))"
      by (simp add: transformNpfParams_def content run t obj_spread_single those_strings)
    moreover have "obj_get ?tp ''content'' = JArr tc" by (simp add: obj_get_obj_define)
    moreover have "\<forall>k. k \<noteq> ''content'' \<and> k \<noteq> ''tags'' \<longrightarrow> obj_get ?tp k = obj_get input k"
      by (simp add: obj_get_obj_define obj_get_rest)
    moreover have "obj_get ?tp ''tags'' =
              (if Array_isArray (obj_get input ''tags'')
               then JStr (the (ToString (obj_get input ''tags''))) else JUndefined)"
      by (simp add: obj_get_obj_define t those_strings)
    ultimately show ?thesis by blast
  qed
qed

text \<open>
  C3. For parameters whose \<open>content\<close> is an array of block objects and whose
  \<open>tags\<close> are absent or an array of strings, the transformer returns an object
  \<open>out\<close>. The transformed content \<open>tc\<close> has the length and order of the input.
  A block whose \<open>media\<close> is a \<open>ReadStream\<close> keeps its other fields, has
  \<open>media = {identifier: String(i)}\<close>, and its stream is in the side map \<open>ms\<close>
  under the key \<open>String(i)\<close>; every other block is unchanged and has no entry; the
  side map has no other keys. \<open>tp\<close>, the structural payload, has the transformed content,
  every other field of the input, and for \<open>tags\<close> the comma-joined text of an array
  and no field otherwise. If at least one stream was extracted
  the output has exactly the key \<open>json\<close> with the JSON text of \<open>tp\<close> and the
  entries of the side map; if none was, the output is \<open>tp\<close> itself.
\<close>

theorem npf_media_extracted:
  assumes content: "obj_get input ''content'' = JArr blocks"
    and typed: "\<forall>b\<in>set blocks. \<exists>es. b = JObj es"
    and tags: "obj_get input ''tags'' = JUndefined \<or> (\<exists>ts. obj_get input ''tags'' = JArr (map JStr ts))"
  shows "\<exists>tc ms tp out.
      content_map blocks 0 [] = Inr (tc, ms)
      \<and> transformNpfParams S input = Inr (JObj out)
      \<and> length tc = length blocks
      \<and> (\<forall>i<length blocks.
            if instanceof_ReadStream (get_prop (blocks ! i) ''media'')
            then get_prop (tc ! i) ''media'' = JObj [(''identifier'', JStr (String_nat i))]
               \<and> (\<forall>k. k \<noteq> ''media'' \<longrightarrow> get_prop (tc ! i) k = get_prop (blocks ! i) k)
               \<and> map_of ms (String_nat i) = Some (get_prop (blocks ! i) ''media'')
            else tc ! i = blocks ! i \<and> map_of ms (String_nat i) = None)
      \<and> (\<forall>k. (\<forall>i<length blocks. k \<noteq> String_nat i) \<longrightarrow> map_of ms k = None)
      \<and> obj_get tp ''content'' = JArr tc
      \<and> (\<forall>k. k \<noteq> ''content'' \<and> k \<noteq> ''tags'' \<longrightarrow> obj_get tp k = obj_get input k)
      \<and> obj_get tp ''tags'' =
          (if Array_isArray (obj_get input ''tags'')
           then JStr (the (ToString (obj_get input ''tags''))) else JUndefined)
      \<and> (if \<exists>i<length blocks. instanceof_ReadStream (get_prop (blocks ! i) ''media'')
         then \<forall>k. map_of out k = (if k = ''json'' then Some (JStr (S (JObj tp))) else map_of ms k)
         else out = tp)"
proof -
  let ?RS = "\<lambda>x. instanceof_ReadStream (get_prop x ''media'')"
  from typed have nn: "\<forall>b\<in>set blocks. \<not> nullish b" by (auto simp: nullish_def)
  from content_map_from_start [OF nn]
  obtain tc ms where run: "content_map blocks 0 [] = Inr (tc, ms)"
    and len: "length tc = length blocks"
    and nth: "\<forall>i<length blocks. tc ! i =
            (if ?RS (blocks ! i)
             then JObj (obj_define (case blocks ! i of JObj es \<Rightarrow> es | _ \<Rightarrow> []) ''media''
                          (JObj [(''identifier'', JStr (String_nat i))]))
             else blocks ! i)"
    and ext: "\<forall>i<length blocks. ?RS (blocks ! i) \<longrightarrow>
            map_of ms (String_nat i) = Some (get_prop (blocks ! i) ''media'')"
    and oth: "\<forall>k. (\<forall>i<length blocks. ?RS (blocks ! i) \<longrightarrow> k \<noteq> String_nat i) \<longrightarrow>
            map_of ms k = None"
    and d: "distinct (map fst ms)"
    and emp: "ms = [] \<longleftrightarrow> (\<forall>i<length blocks. \<not> ?RS (blocks ! i))"
    by blast
  from transformNpfParams_run [OF content run tags, of S]
  obtain tp where out: "transformNpfParams S input =
            Inr (JObj (if ms \<noteq> []
                       then obj_spread [(''json'', JStr (S (JObj tp)))] (Object_fromEntries ms)
                       else tp))"
    and tpc: "obj_get tp ''content'' = JArr tc"
    and tpo: "\<forall>k. k \<noteq> ''content'' \<and> k \<noteq> ''tags'' \<longrightarrow> obj_get tp k = obj_get input k"
    and tpt: "obj_get tp ''tags'' =
          (if Array_isArray (obj_get input ''tags'')
           then JStr (the (ToString (obj_get input ''tags''))) else JUndefined)"
    by blast
  let ?out = "if ms \<noteq> []
              then obj_spread [(''json'', JStr (S (JObj tp)))] (Object_fromEntries ms) else tp"
  have blocks: "if ?RS (blocks ! i)
       then get_prop (tc ! i) ''media'' = JObj [(''identifier'', JStr (String_nat i))]
          \<and> (\<forall>k. k \<noteq> ''media'' \<longrightarrow> get_prop (tc ! i) k = get_prop (blocks ! i) k)
          \<and> map_of ms (String_nat i) = Some (get_prop (blocks ! i) ''media'')
       else tc ! i = blocks ! i \<and> map_of ms (String_nat i) = None"
    if i: "i < length blocks" for i
  proof (cases "?RS (blocks ! i)")
    case True
    from i have "blocks ! i \<in> set blocks" by simp
    with typed obtain es where es: "blocks ! i = JObj es" by blast
    from nth i True es
    have "tc ! i = JObj (obj_define es ''media'' (JObj [(''identifier'', JStr (String_nat i))]))"
      by simp
    with True ext i es show ?thesis by (simp add: obj_get_obj_define)
  next
    case False
    have "\<forall>j<length blocks. ?RS (blocks ! j) \<longrightarrow> String_nat i \<noteq> String_nat j"
      using False by (auto simp: String_nat_eq_iff)
    with oth have "map_of ms (String_nat i) = None" by blast
    with False nth i show ?thesis by simp
  qed
  have nokeys: "map_of ms k = None" if "\<forall>i<length blocks. k \<noteq> String_nat i" for k
  proof -
    from that have "\<forall>i<length blocks. ?RS (blocks ! i) \<longrightarrow> k \<noteq> String_nat i" by simp
    with oth show ?thesis by blast
  qed
  have collapse: "if \<exists>i<length blocks. ?RS (blocks ! i)
         then \<forall>k. map_of ?out k = (if k = ''json'' then Some (JStr (S (JObj tp))) else map_of ms k)
         else ?out = tp"
  proof (cases "\<exists>i<length blocks. ?RS (blocks ! i)")
    case True
    with emp have ne: "ms \<noteq> []" by blast
    have j: "map_of ms ''json'' = None"
      by (rule nokeys) (simp add: json_not_index [symmetric])
    from True ne show ?thesis by (simp add: map_of_collapsed [OF d j])
  next
    case False
    with emp have "ms = []" by blast
    with False show ?thesis by auto
  qed
  have b_all: "\<forall>i<length blocks.
            if ?RS (blocks ! i)
            then get_prop (tc ! i) ''media'' = JObj [(''identifier'', JStr (String_nat i))]
               \<and> (\<forall>k. k \<noteq> ''media'' \<longrightarrow> get_prop (tc ! i) k = get_prop (blocks ! i) k)
               \<and> map_of ms (String_nat i) = Some (get_prop (blocks ! i) ''media'')
            else tc ! i = blocks ! i \<and> map_of ms (String_nat i) = None"
    using blocks by (intro allI impI)
  have n_all: "\<forall>k. (\<forall>i<length blocks. k \<noteq> String_nat i) \<longrightarrow> map_of ms k = None"
    using nokeys by (intro allI impI)
  show ?thesis
    apply (rule exI [of _ tc])
    apply (rule exI [of _ ms])
    apply (rule exI [of _ tp])
    apply (rule exI [of _ "?out"])
    apply (intro conjI)
           apply (rule run)
          apply (rule out)
         apply (rule len)
        apply (rule b_all)
       apply (rule n_all)
       apply (rule tpc)
      apply (rule tpo)
     apply (rule tpt)
    apply (rule collapse)
    done
qed

theorem npf_media_extracted_witness:
  "transformNpfParams (\<lambda>v. ''JSON'')
     [(''content'', JArr [JObj [(''type'', JStr ''text''), (''text'', JStr ''hi'')],
                          JObj [(''type'', JStr ''image''), (''media'', JReadStream 5),
                                (''alt_text'', JStr ''cat'')]]),
      (''tags'', JArr [JStr ''a'', JStr ''b'']),
      (''state'', JStr ''draft'')]
   = Inr (JObj [(''1'', JReadStream 5), (''json'', JStr ''JSON'')])
   \<and> content_map [JObj [(''type'', JStr ''text''), (''text'', JStr ''hi'')],
                   JObj [(''type'', JStr ''image''), (''media'', JReadStream 5),
                         (''alt_text'', JStr ''cat'')]] 0 []
     = Inr ([JObj [(''type'', JStr ''text''), (''text'', JStr ''hi'')],
             JObj [(''type'', JStr ''image''), (''media'', JObj [(''identifier'', JStr ''1'')]),
                   (''alt_text'', JStr ''cat'')]],
            [(''1'', JReadStream 5)])"
  using npf_media_extracted
    [of "[(''content'', JArr [JObj [(''type'', JStr ''text''), (''text'', JStr ''hi'')],
                          JObj [(''type'', JStr ''image''), (''media'', JReadStream 5),
                                (''alt_text'', JStr ''cat'')]]),
      (''tags'', JArr [JStr ''a'', JStr ''b'']),
      (''state'', JStr ''draft'')]"
      "[JObj [(''type'', JStr ''text''), (''text'', JStr ''hi'')],
                          JObj [(''type'', JStr ''image''), (''media'', JReadStream 5),
                                (''alt_text'', JStr ''cat'')]]"
      "\<lambda>v. ''JSON''"]
  by (simp add: transformNpfParams_def transform_block_def obj_get_def obj_define_def
      obj_spread_def Object_fromEntries_def Map_set_def Map_has_def nullish_def
      array_index_def digits_value_def String_nat.simps digit_char_def Let_def)

text \<open>
  C10. A block whose \<open>media\<close> is anything but a \<open>ReadStream\<close> (a buffer,
  another readable stream, a string, an object, or no media at all) is returned as it is
  and gets no entry in the side map. When no block has a \<open>ReadStream\<close>, nothing is
  extracted and the output is the plain payload with the content unchanged: no
  \<open>json\<close> field is made.
\<close>

theorem other_media_passes_through:
  assumes content: "obj_get input ''content'' = JArr blocks"
    and blocks: "\<forall>b\<in>set blocks. \<not> nullish b"
    and tags: "obj_get input ''tags'' = JUndefined \<or> (\<exists>ts. obj_get input ''tags'' = JArr (map JStr ts))"
    and i: "i < length blocks"
    and other: "\<not> instanceof_ReadStream (get_prop (blocks ! i) ''media'')"
  shows "\<exists>tc ms.
      content_map blocks 0 [] = Inr (tc, ms)
      \<and> tc ! i = blocks ! i
      \<and> map_of ms (String_nat i) = None
      \<and> ((\<forall>j<length blocks. \<not> instanceof_ReadStream (get_prop (blocks ! j) ''media'')) \<longrightarrow>
           tc = blocks \<and> ms = [] \<and>
           (\<exists>tp. transformNpfParams S input = Inr (JObj tp)
              \<and> obj_get tp ''content'' = JArr blocks
              \<and> (\<forall>k. k \<noteq> ''content'' \<and> k \<noteq> ''tags'' \<longrightarrow> obj_get tp k = obj_get input k)))"
proof -
  let ?RS = "\<lambda>x. instanceof_ReadStream (get_prop x ''media'')"
  from content_map_from_start [OF blocks]
  obtain tc ms where run: "content_map blocks 0 [] = Inr (tc, ms)"
    and len: "length tc = length blocks"
    and nth: "\<forall>i<length blocks. tc ! i =
            (if ?RS (blocks ! i)
             then JObj (obj_define (case blocks ! i of JObj es \<Rightarrow> es | _ \<Rightarrow> []) ''media''
                          (JObj [(''identifier'', JStr (String_nat i))]))
             else blocks ! i)"
    and oth: "\<forall>k. (\<forall>i<length blocks. ?RS (blocks ! i) \<longrightarrow> k \<noteq> String_nat i) \<longrightarrow>
            map_of ms k = None"
    and emp: "ms = [] \<longleftrightarrow> (\<forall>i<length blocks. \<not> ?RS (blocks ! i))"
    by blast
  from nth i other have same: "tc ! i = blocks ! i" by simp
  have "\<forall>j<length blocks. ?RS (blocks ! j) \<longrightarrow> String_nat i \<noteq> String_nat j"
    using other by (auto simp: String_nat_eq_iff)
  with oth have nokey: "map_of ms (String_nat i) = None" by blast
  have none: "tc = blocks \<and> ms = [] \<and>
           (\<exists>tp. transformNpfParams S input = Inr (JObj tp)
              \<and> obj_get tp ''content'' = JArr blocks
              \<and> (\<forall>k. k \<noteq> ''content'' \<and> k \<noteq> ''tags'' \<longrightarrow> obj_get tp k = obj_get input k))"
    if all: "\<forall>j<length blocks. \<not> ?RS (blocks ! j)"
  proof -
    from all emp have ms: "ms = []" by blast
    from all nth have "\<forall>j<length blocks. tc ! j = blocks ! j" by simp
    with len have tc: "tc = blocks" by (simp add: list_eq_iff_nth_eq)
    from transformNpfParams_run [OF content run tags, of S]
    obtain tp where "transformNpfParams S input =
            Inr (JObj (if ms \<noteq> []
                       then obj_spread [(''json'', JStr (S (JObj tp)))] (Object_fromEntries ms)
                       else tp))"
      and "obj_get tp ''content'' = JArr tc"
      and "\<forall>k. k \<noteq> ''content'' \<and> k \<noteq> ''tags'' \<longrightarrow> obj_get tp k = obj_get input k"
      by blast
    with ms tc show ?thesis by auto
  qed
  from run same nokey none show ?thesis by blast
qed

theorem other_media_passes_through_witness:
  "transformNpfParams (\<lambda>v. ''JSON'')
     [(''content'', JArr [JObj [(''type'', JStr ''image''), (''media'', JBuffer ''GIF89a'')],
                          JObj [(''type'', JStr ''video''), (''media'', JReadable 3)],
                          JObj [(''type'', JStr ''image''),
                                (''media'', JObj [(''url'', JStr ''https://e.x/a.png'')])],
                          JObj [(''type'', JStr ''audio''), (''media'', JStr ''https://e.x/a.mp3'')]])]
   = Inr (JObj
     [(''content'', JArr [JObj [(''type'', JStr ''image''), (''media'', JBuffer ''GIF89a'')],
                          JObj [(''type'', JStr ''video''), (''media'', JReadable 3)],
                          JObj [(''type'', JStr ''image''),
                                (''media'', JObj [(''url'', JStr ''https://e.x/a.png'')])],
                          JObj [(''type'', JStr ''audio''), (''media'', JStr ''https://e.x/a.mp3'')]])])"
  using other_media_passes_through
    [of "[(''content'', JArr [JObj [(''type'', JStr ''image''), (''media'', JBuffer ''GIF89a'')],
                          JObj [(''type'', JStr ''video''), (''media'', JReadable 3)],
                          JObj [(''type'', JStr ''image''),
                                (''media'', JObj [(''url'', JStr ''https://e.x/a.png'')])],
                          JObj [(''type'', JStr ''audio''), (''media'', JStr ''https://e.x/a.mp3'')]])]"
      "[JObj [(''type'', JStr ''image''), (''media'', JBuffer ''GIF89a'')],
                          JObj [(''type'', JStr ''video''), (''media'', JReadable 3)],
                          JObj [(''type'', JStr ''image''),
                                (''media'', JObj [(''url'', JStr ''https://e.x/a.png'')])],
                          JObj [(''type'', JStr ''audio''), (''media'', JStr ''https://e.x/a.mp3'')]]"
      1 "\<lambda>v. ''JSON''"]
  by (simp add: transformNpfParams_def transform_block_def obj_get_def obj_define_def
      obj_spread_def Object_fromEntries_def Map_set_def Map_has_def nullish_def
      array_index_def digits_value_def String_nat.simps digit_char_def Let_def)

section \<open>Properties of the request planner for reads\<close>

text \<open>An indexed key determines its key and its index, and differs from the key itself.\<close>

lemma split_at_last:
  assumes eq: "xs @ c # ys = xs' @ c # ys'" and "c \<notin> set ys" and "c \<notin> set ys'"
  shows "xs = xs' \<and> ys = ys'"
proof -
  from eq have "rev (xs @ c # ys) = rev (xs' @ c # ys')" by (simp only:)
  then have r: "rev ys @ c # rev xs = rev ys' @ c # rev xs'" by simp
  have t: "takeWhile (\<lambda>x. x \<noteq> c) (rev zs @ c # ws) = rev zs" if "c \<notin> set zs" for zs ws
    using that by (induction zs rule: rev_induct) auto
  from r have "takeWhile (\<lambda>x. x \<noteq> c) (rev ys @ c # rev xs)
      = takeWhile (\<lambda>x. x \<noteq> c) (rev ys' @ c # rev xs')" by (simp only:)
  with assms(2,3) have "rev ys = rev ys'" by (simp add: t)
  then have ys: "ys = ys'" by simp
  with eq have "xs = xs'" by simp
  with ys show ?thesis by simp
qed

lemma bracket_not_digit: "CHR ''['' \<notin> set (String_nat n)"
  using String_nat_digits [of n] by auto

lemma index_key_inj: "index_key k i = index_key k' j \<Longrightarrow> k = k' \<and> i = j"
proof -
  assume "index_key k i = index_key k' j"
  then have "k @ CHR ''['' # String_nat i = k' @ CHR ''['' # String_nat j"
    by (simp add: index_key_def)
  from split_at_last [OF this bracket_not_digit bracket_not_digit]
  show ?thesis by (simp add: String_nat_eq_iff)
qed

lemma index_key_not_key: "index_key k i \<noteq> k"
proof
  assume "index_key k i = k"
  then have "length (index_key k i) = length k" by (simp only:)
  then show False by (simp add: index_key_def)
qed

lemma append_array_ok:
  "list_all (\<lambda>x. ToString x \<noteq> None) xs \<Longrightarrow>
   append_array key n xs q =
     Inr (q @ map (\<lambda>i. (index_key key (n + i), the (ToString (xs ! i)))) [0..<length xs])"
proof (induction xs arbitrary: n q)
  case Nil
  then show ?case by simp
next
  case (Cons x xs)
  from Cons.prems obtain s where s: "ToString x = Some s" by auto
  from Cons.prems have rest: "list_all (\<lambda>x. ToString x \<noteq> None) xs" by simp
  have "map (\<lambda>i. (index_key key (n + i), the (ToString ((x # xs) ! i)))) [0..<length (x # xs)]
      = (index_key key n, s)
        # map (\<lambda>i. (index_key key (Suc n + i), the (ToString (xs ! i)))) [0..<length xs]"
    by (simp add: upt_conv_Cons map_Suc_upt [symmetric] s del: upt_Suc)
  then show ?case by (simp add: s Cons.IH [OF rest] searchParams_append_def)
qed

lemma params_to_search_array:
  "list_all (\<lambda>x. ToString x \<noteq> None) xs \<Longrightarrow>
   params_to_search ((key, JArr xs) # rest) q =
     params_to_search rest (q @ spec_query_pairs (key, JArr xs))"
  using append_array_ok [of xs key 0 q] by (simp add: spec_query_pairs_def)

lemma params_to_search_scalar:
  "\<not> Array_isArray v \<Longrightarrow> ToString v = Some s \<Longrightarrow>
   params_to_search ((key, v) # rest) q = params_to_search rest (searchParams_set q key s)"
  by (cases v) simp_all

lemma filter_searchParams_set_other:
  "k \<notin> K \<Longrightarrow>
   filter (\<lambda>p. fst p \<in> K) (searchParams_set q k v) = filter (\<lambda>p. fst p \<in> K) q"
proof (induction q)
  case Nil
  then show ?case by simp
next
  case (Cons p q)
  have "filter (\<lambda>p. fst p \<in> K) (filter (\<lambda>p. fst p \<noteq> k) q) = filter (\<lambda>p. fst p \<in> K) q"
    using Cons.prems by (auto intro: filter_cong)
  with Cons show ?case by (cases p) auto
qed

lemma filter_searchParams_set_same:
  "filter (\<lambda>p. fst p = k) (searchParams_set q k v) = [(k, v)]"
  by (induction q) (auto simp: filter_empty_conv)

text \<open>
  The loop over the parameters: entries that write none of the keys in \<open>K\<close> leave
  the pairs named in \<open>K\<close> as they are.
\<close>

lemma params_to_search_append:
  "params_to_search (a @ b) q =
     (case params_to_search a q of Inl e \<Rightarrow> Inl e | Inr q1 \<Rightarrow> params_to_search b q1)"
  by (induction a arbitrary: q) (auto split: jsvalue.splits sum.splits option.splits if_splits)

lemma keys_spec_query_pairs:
  "map fst (spec_query_pairs (k, v)) = (if Array_isArray v then indexed_keys (k, v) else [k])"
  by (cases v) (simp_all add: spec_query_pairs_def indexed_keys_def comp_def)

lemma indexed_keys_scalar: "\<not> Array_isArray v \<Longrightarrow> indexed_keys (k, v) = []"
  by (cases v) (simp_all add: indexed_keys_def)

lemma filter_none: "fst ` set ps \<inter> K = {} \<Longrightarrow> filter (\<lambda>p. fst p \<in> K) ps = []"
  by (auto simp: filter_empty_conv)

lemma filter_all: "fst ` set ps \<subseteq> K \<Longrightarrow> filter (\<lambda>p. fst p \<in> K) ps = ps"
  by (auto simp: filter_id_conv)

lemma params_to_search_untouched:
  assumes "list_all (\<lambda>e. stringifiable (snd e)) ps"
    and "\<forall>e\<in>set ps. fst ` set (spec_query_pairs e) \<inter> K = {}"
  shows "\<exists>q'. params_to_search ps q = Inr q'
            \<and> filter (\<lambda>p. fst p \<in> K) q' = filter (\<lambda>p. fst p \<in> K) q"
  using assms
proof (induction ps arbitrary: q)
  case Nil
  then show ?case by simp
next
  case (Cons e ps)
  obtain k v where e: "e = (k, v)" by (cases e)
  from Cons.prems have conv: "stringifiable v" and rest: "list_all (\<lambda>e. stringifiable (snd e)) ps"
    and away: "fst ` set (spec_query_pairs (k, v)) \<inter> K = {}"
    and away': "\<forall>e\<in>set ps. fst ` set (spec_query_pairs e) \<inter> K = {}"
    by (simp_all add: e)
  show ?case
  proof (cases "Array_isArray v")
    case True
    then obtain xs where v: "v = JArr xs" by (cases v) simp_all
    from conv v have "list_all (\<lambda>x. ToString x \<noteq> None) xs" by (simp add: stringifiable_def)
    then have step: "params_to_search ((k, v) # ps) q
        = params_to_search ps (q @ spec_query_pairs (k, v))"
      unfolding v by (rule params_to_search_array)
    from Cons.IH [OF rest away', of "q @ spec_query_pairs (k, v)"]
    obtain q' where "params_to_search ps (q @ spec_query_pairs (k, v)) = Inr q'"
      and "filter (\<lambda>p. fst p \<in> K) q'
         = filter (\<lambda>p. fst p \<in> K) (q @ spec_query_pairs (k, v))"
      by blast
    with step show ?thesis by (simp add: e filter_none [OF away])
  next
    case False
    with conv obtain s where s: "ToString v = Some s"
      by (cases v) (auto simp: stringifiable_def)
    from away False have k: "k \<notin> K"
      using keys_spec_query_pairs [of k v] by (cases v) (auto simp: spec_query_pairs_def)
    have step: "params_to_search ((k, v) # ps) q = params_to_search ps (searchParams_set q k s)"
      using False s by (rule params_to_search_scalar)
    from Cons.IH [OF rest away', of "searchParams_set q k s"]
    obtain q' where "params_to_search ps (searchParams_set q k s) = Inr q'"
      and "filter (\<lambda>p. fst p \<in> K) q' = filter (\<lambda>p. fst p \<in> K) (searchParams_set q k s)"
      by blast
    with step show ?thesis by (simp add: e filter_searchParams_set_other [OF k])
  qed
qed

lemma keys_away:
  assumes "k' \<noteq> k" and "k' \<notin> set (indexed_keys (k, v))" and "k \<notin> set (indexed_keys (k', v'))"
  shows "fst ` set (spec_query_pairs (k', v')) \<inter> insert k (set (indexed_keys (k, v))) = {}"
proof (cases "Array_isArray v'")
  case False
  have "fst ` set (spec_query_pairs (k', v')) = set (map fst (spec_query_pairs (k', v')))"
    by simp
  also have "\<dots> = {k'}" using False by (simp only: keys_spec_query_pairs) simp
  finally show ?thesis using assms by simp
next
  case True
  have "fst ` set (spec_query_pairs (k', v')) = set (map fst (spec_query_pairs (k', v')))"
    by simp
  also have "\<dots> = set (indexed_keys (k', v'))" using True by (simp only: keys_spec_query_pairs) simp
  finally have keys: "fst ` set (spec_query_pairs (k', v')) = set (indexed_keys (k', v'))" .
  have "x \<notin> set (indexed_keys (k, v))" if "x \<in> set (indexed_keys (k', v'))" for x
  proof
    assume "x \<in> set (indexed_keys (k, v))"
    then obtain i where "x = index_key k i"
      by (cases v) (auto simp: indexed_keys_def)
    moreover from that obtain j where "x = index_key k' j"
      by (cases v') (auto simp: indexed_keys_def)
    ultimately have "k = k'" using index_key_inj [of k i k' j] by simp
    with assms(1) show False by simp
  qed
  with keys assms(3) show ?thesis by auto
qed

lemma params_to_search_entry:
  assumes conv: "list_all (\<lambda>e. stringifiable (snd e)) ps"
    and dist: "distinct (map fst ps)"
    and mem: "(k, v) \<in> set ps"
    and nocoll: "\<forall>e\<in>set ps. \<forall>e'\<in>set ps. fst e' \<notin> set (indexed_keys e)"
    and path: "Array_isArray v \<longrightarrow>
                 (\<forall>p\<in>set q. fst p \<noteq> k \<and> fst p \<notin> set (indexed_keys (k, v)))"
  shows "\<exists>q'. params_to_search ps q = Inr q'
            \<and> filter (\<lambda>p. fst p = k \<or> fst p \<in> set (indexed_keys (k, v))) q'
                = spec_query_pairs (k, v)"
proof -
  let ?K = "insert k (set (indexed_keys (k, v)))"
  from mem obtain pre post where ps: "ps = pre @ (k, v) # post"
    by (auto dest: split_list)
  from dist ps have kpre: "k \<notin> fst ` set pre" and kpost: "k \<notin> fst ` set post" by auto
  from conv ps have cpre: "list_all (\<lambda>e. stringifiable (snd e)) pre"
    and cv: "stringifiable v"
    and cpost: "list_all (\<lambda>e. stringifiable (snd e)) post" by simp_all
  have away: "fst ` set (spec_query_pairs e) \<inter> ?K = {}"
    if e: "e \<in> set pre \<union> set post" for e
  proof -
    obtain k' v' where e': "e = (k', v')" by (cases e)
    from e e' kpre kpost have ne: "k' \<noteq> k" by force
    from e ps have in_ps: "e \<in> set ps" by auto
    from nocoll mem in_ps have "fst e \<notin> set (indexed_keys (k, v))" by blast
    then have a: "k' \<notin> set (indexed_keys (k, v))" by (simp add: e')
    from nocoll mem in_ps have "fst (k, v) \<notin> set (indexed_keys e)" by blast
    then have b: "k \<notin> set (indexed_keys (k', v'))" by (simp add: e')
    from keys_away [OF ne a b] show ?thesis by (simp add: e')
  qed
  then have apre: "\<forall>e\<in>set pre. fst ` set (spec_query_pairs e) \<inter> ?K = {}"
    and apost: "\<forall>e\<in>set post. fst ` set (spec_query_pairs e) \<inter> ?K = {}" by auto
  from params_to_search_untouched [OF cpre apre, of q]
  obtain q1 where r1: "params_to_search pre q = Inr q1"
    and f1: "filter (\<lambda>p. fst p \<in> ?K) q1 = filter (\<lambda>p. fst p \<in> ?K) q" by blast
  have "\<exists>q2. params_to_search ((k, v) # post) q1 = params_to_search post q2
            \<and> filter (\<lambda>p. fst p \<in> ?K) q2 = spec_query_pairs (k, v)"
  proof (cases "Array_isArray v")
    case True
    then obtain xs where v: "v = JArr xs" by (cases v) simp_all
    from cv v have "list_all (\<lambda>x. ToString x \<noteq> None) xs" by (simp add: stringifiable_def)
    then have step: "params_to_search ((k, v) # post) q1
        = params_to_search post (q1 @ spec_query_pairs (k, v))"
      unfolding v by (rule params_to_search_array)
    from path True have "fst ` set q \<inter> ?K = {}" by auto
    then have "filter (\<lambda>p. fst p \<in> ?K) q = []" by (rule filter_none)
    with f1 have e1: "filter (\<lambda>p. fst p \<in> ?K) q1 = []" by simp
    have "fst ` set (spec_query_pairs (k, v)) = set (map fst (spec_query_pairs (k, v)))" by simp
    also have "\<dots> = set (indexed_keys (k, v))"
      using True by (simp only: keys_spec_query_pairs) simp
    finally have "fst ` set (spec_query_pairs (k, v)) \<subseteq> ?K" by auto
    then have "filter (\<lambda>p. fst p \<in> ?K) (spec_query_pairs (k, v)) = spec_query_pairs (k, v)"
      by (rule filter_all)
    with e1 have "filter (\<lambda>p. fst p \<in> ?K) (q1 @ spec_query_pairs (k, v)) = spec_query_pairs (k, v)"
      by simp
    with step show ?thesis by blast
  next
    case False
    with cv obtain s where s: "ToString v = Some s"
      by (cases v) (auto simp: stringifiable_def)
    have step: "params_to_search ((k, v) # post) q1 = params_to_search post (searchParams_set q1 k s)"
      using False s by (rule params_to_search_scalar)
    from False have K: "?K = {k}" by (simp add: indexed_keys_scalar)
    from False s have sp: "spec_query_pairs (k, v) = [(k, s)]"
      by (cases v) (simp_all add: spec_query_pairs_def)
    have "filter (\<lambda>p. fst p \<in> ?K) (searchParams_set q1 k s) = spec_query_pairs (k, v)"
      by (simp add: K sp filter_searchParams_set_same)
    with step show ?thesis by blast
  qed
  then obtain q2 where r2: "params_to_search ((k, v) # post) q1 = params_to_search post q2"
    and f2: "filter (\<lambda>p. fst p \<in> ?K) q2 = spec_query_pairs (k, v)" by blast
  from params_to_search_untouched [OF cpost apost, of q2]
  obtain q' where r3: "params_to_search post q2 = Inr q'"
    and f3: "filter (\<lambda>p. fst p \<in> ?K) q' = filter (\<lambda>p. fst p \<in> ?K) q2" by blast
  have "params_to_search ps q = Inr q'"
    by (simp add: ps params_to_search_append r1 r2 r3 del: params_to_search.simps)
  moreover have "filter (\<lambda>p. fst p = k \<or> fst p \<in> set (indexed_keys (k, v))) q'
      = filter (\<lambda>p. fst p \<in> ?K) q'" by simp
  ultimately show ?thesis using f2 f3 by simp
qed

text \<open>
  C5, as amended. A GET request whose parameters all convert to strings, where no
  parameter key is an indexed key of an array parameter, and where the query string of
  the path has no pair named \<open>k\<close> or \<open>k[i]\<close> for an array parameter \<open>k\<close>:
  the planner returns the URL and no payload, and for every parameter the pairs of the
  query string under its key and its indexed keys are exactly the pairs the
  specification gives: the \<open>n\<close> pairs \<open>k[0]\<close> to \<open>k[n-1]\<close> in element order
  and no bare \<open>k\<close> pair for an array, and one pair for a scalar, which replaces every
  pair of that name the path had.
\<close>

theorem read_params_expand_into_query:
  assumes url: "new_URL apiPath (Some base) = Some u"
    and conv: "list_all (\<lambda>e. stringifiable (snd e)) ps"
    and keys: "distinct (map fst ps)"
    and nocoll: "\<forall>e\<in>set ps. \<forall>e'\<in>set ps. fst e' \<notin> set (indexed_keys e)"
    and path: "\<forall>e\<in>set ps. \<forall>p\<in>set (searchParams u).
                 Array_isArray (snd e) \<longrightarrow> fst p \<noteq> fst e \<and> fst p \<notin> set (indexed_keys e)"
  shows "\<exists>q. prepareRequestUrlAndRequestData new_URL base apiPath GET (Some ps)
               = Inr (u\<lparr>searchParams := q\<rparr>, None)
           \<and> (\<forall>e\<in>set ps.
                 filter (\<lambda>p. fst p = fst e \<or> fst p \<in> set (indexed_keys e)) q
                   = spec_query_pairs e)"
proof -
  have "list_all (\<lambda>e. stringifiable (snd e)) ps" by (rule conv)
  moreover have "\<forall>e\<in>set ps. fst ` set (spec_query_pairs e) \<inter> {} = {}" by simp
  ultimately obtain q where run: "params_to_search ps (searchParams u) = Inr q"
    using params_to_search_untouched [of ps "{}" "searchParams u"] by blast
  have "filter (\<lambda>p. fst p = fst e \<or> fst p \<in> set (indexed_keys e)) q = spec_query_pairs e"
    if e: "e \<in> set ps" for e
  proof -
    obtain k v where kv: "e = (k, v)" by (cases e)
    from path e kv have p: "Array_isArray v \<longrightarrow>
        (\<forall>p\<in>set (searchParams u). fst p \<noteq> k \<and> fst p \<notin> set (indexed_keys (k, v)))"
      by fastforce
    from e kv have "(k, v) \<in> set ps" by simp
    from params_to_search_entry [OF conv keys this nocoll p] run
    show ?thesis by (simp add: kv)
  qed
  then have all: "\<forall>e\<in>set ps.
      filter (\<lambda>p. fst p = fst e \<or> fst p \<in> set (indexed_keys e)) q = spec_query_pairs e"
    by blast
  have "prepareRequestUrlAndRequestData new_URL base apiPath GET (Some ps)
      = Inr (u\<lparr>searchParams := q\<rparr>, None)"
    using run url by (simp add: prepareRequestUrlAndRequestData_def)
  with all show ?thesis by blast
qed

theorem read_params_expand_into_query_witness:
  "prepareRequestUrlAndRequestData
     (\<lambda>p b. Some \<lparr> scheme = ''https'', username = [], password = [], host = ''api.tumblr.com'',
                   pathname = ''/v2/blog/x/posts'',
                   searchParams = [(''limit'', ''5''), (''npf'', ''true'')], hash = [] \<rparr>)
     ''https://api.tumblr.com/'' ''/v2/blog/x/posts?limit=5&npf=true'' GET
     (Some [(''tag'', JArr [JStr ''first'', JStr ''second'']), (''limit'', JNum 20)])
   = Inr (\<lparr> scheme = ''https'', username = [], password = [], host = ''api.tumblr.com'',
             pathname = ''/v2/blog/x/posts'',
             searchParams = [(''limit'', ''20''), (''npf'', ''true''),
                             (''tag[0]'', ''first''), (''tag[1]'', ''second'')],
             hash = [] \<rparr>, None)"
  using read_params_expand_into_query
    [of "\<lambda>p b. Some \<lparr> scheme = ''https'', username = [], password = [], host = ''api.tumblr.com'',
                   pathname = ''/v2/blog/x/posts'',
                   searchParams = [(''limit'', ''5''), (''npf'', ''true'')], hash = [] \<rparr>"
        "''/v2/blog/x/posts?limit=5&npf=true''" "''https://api.tumblr.com/''" _
        "[(''tag'', JArr [JStr ''first'', JStr ''second'']), (''limit'', JNum 20)]"]
  by (simp add: prepareRequestUrlAndRequestData_def searchParams_append_def index_key_def
      String_int_def String_nat.simps digit_char_def cannot_convert_def)

text \<open>
  The claim as stated fails when the path already has a pair named like an array
  parameter: the query string keeps the bare pair beside the indexed ones.
\<close>

theorem bare_pair_from_path_counterexample:
  "prepareRequestUrlAndRequestData
     (\<lambda>p b. Some \<lparr> scheme = ''https'', username = [], password = [], host = ''api.tumblr.com'',
                   pathname = ''/v2/tagged'', searchParams = [(''tag'', ''x'')], hash = [] \<rparr>)
     ''https://api.tumblr.com/'' ''/v2/tagged?tag=x'' GET
     (Some [(''tag'', JArr [JStr ''a'', JStr ''b''])])
   = Inr (\<lparr> scheme = ''https'', username = [], password = [], host = ''api.tumblr.com'',
             pathname = ''/v2/tagged'',
             searchParams = [(''tag'', ''x''), (''tag[0]'', ''a''), (''tag[1]'', ''b'')],
             hash = [] \<rparr>, None)"
  by (simp add: prepareRequestUrlAndRequestData_def searchParams_append_def index_key_def
      String_nat.simps digit_char_def)

text \<open>
  It also fails when a scalar parameter is named like an indexed key: \<open>set\<close>
  overwrites the pair of the array. A parameter that cannot be converted makes the
  planner throw.
\<close>

lemma indexed_key_overwritten:
  "prepareRequestUrlAndRequestData
     (\<lambda>p b. Some \<lparr> scheme = ''https'', username = [], password = [], host = ''api.tumblr.com'',
                   pathname = ''/v2/tagged'', searchParams = [], hash = [] \<rparr>)
     ''https://api.tumblr.com/'' ''/v2/tagged'' GET
     (Some [(''tag'', JArr [JStr ''a'', JStr ''b'']), (''tag[0]'', JStr ''z'')])
   = Inr (\<lparr> scheme = ''https'', username = [], password = [], host = ''api.tumblr.com'',
             pathname = ''/v2/tagged'',
             searchParams = [(''tag[0]'', ''z''), (''tag[1]'', ''b'')],
             hash = [] \<rparr>, None)"
  by (simp add: prepareRequestUrlAndRequestData_def searchParams_append_def index_key_def
      String_nat.simps digit_char_def)

lemma unconvertible_parameter_throws:
  "prepareRequestUrlAndRequestData
     (\<lambda>p b. Some \<lparr> scheme = ''https'', username = [], password = [], host = ''api.tumblr.com'',
                   pathname = ''/v2/tagged'', searchParams = [], hash = [] \<rparr>)
     ''https://api.tumblr.com/'' ''/v2/tagged'' GET
     (Some [(''tag'', JObj [(''toString'', JNull)])])
   = Inl (TypeError ''Cannot convert object to primitive value'')"
  by (simp add: prepareRequestUrlAndRequestData_def cannot_convert_def)

end
